theory Spec2Isabelle
  imports Complex_Main
begin

section \<open>New Yale sparse storage: the descriptor and what it takes from outside\<close>

text \<open>
  The development embeds \<^verbatim>\<open>ext/nmatrix/storage/yale.cpp\<close>. The two buffers of a
  \<^verbatim>\<open>YALE_STORAGE\<close> are C arrays reached through pointers; they are modelled as
  stores from positions to contents, with the allocated length kept in \<open>capacity\<close>.
  Positions and column indices (\<^verbatim>\<open>IType\<close>, \<^verbatim>\<open>size_t\<close>) are natural numbers: the
  theorems below stay in the range where no index subtraction of the source goes below
  zero, and where that range ends is written in each function's comment. The index type
  tag \<^verbatim>\<open>itype\<close> is therefore not part of the record. The value type \<^verbatim>\<open>DType\<close> is the
  type parameter \<open>'v\<close>.
\<close>

text \<open>
  The exceptions the code raises: \<^verbatim>\<open>rb_eArgError\<close>, \<^verbatim>\<open>rb_eNoMemError\<close> (the
  specification's CapacityExceeded) and \<^verbatim>\<open>rb_eNotImpError\<close>.
\<close>

datatype error = ArgError | NoMemError | NotImpError

text \<open>
  The struct \<^verbatim>\<open>YALE_STORAGE\<close> is declared in a header that is not among the sources; the
  fields are the ones the functions below read and write.
\<close>

record 'v yale_storage =
  dtype :: nat
  dim :: nat
  shape :: "nat list"
  ndnz :: nat
  capacity :: nat
  ija :: "nat \<Rightarrow> nat"
  a :: "nat \<Rightarrow> 'v"

text \<open>
  The header \<^verbatim>\<open>yale.h\<close> and the allocator are not among the sources. What the code
  takes from them is collected in one record, so that every theorem says which of these
  it depends on:
  \<^item> \<open>growth c\<close> is \<^verbatim>\<open>c * GROWTH_CONSTANT\<close> converted to \<^verbatim>\<open>size_t\<close>;
  \<^item> \<open>yale_minimum sh\<close> is \<^verbatim>\<open>NM_YALE_MINIMUM(s)\<close> for a storage of shape \<open>sh\<close>;
  \<^item> \<open>fresh_ija\<close> and \<open>fresh_a\<close> are the contents of the memory that \<^verbatim>\<open>ALLOC_N\<close>
    returns, which the C code does not initialise. One call of an operation sees the same
    contents in every buffer it allocates.
  Allocation itself is taken to succeed.
\<close>

record 'v env =
  growth :: "nat \<Rightarrow> nat"
  yale_minimum :: "nat list \<Rightarrow> nat"
  fresh_ija :: "nat \<Rightarrow> nat"
  fresh_a :: "nat \<Rightarrow> 'v"

text \<open>
  Modelled from the spec: the macro \<^verbatim>\<open>GROWTH_CONSTANT\<close> of \<^verbatim>\<open>yale.h\<close> is missing;
  the specification gives the growth factor as 1.5 or 2. These are the two products,
  truncated as the conversion to \<^verbatim>\<open>size_t\<close> does.
\<close>

definition growth_1_5 :: "nat \<Rightarrow> nat" where
  "growth_1_5 c = (3 * c) div 2"

definition growth_2 :: "nat \<Rightarrow> nat" where
  "growth_2 c = 2 * c"

text \<open>
  Modelled from the spec: the macro \<^verbatim>\<open>NM_YALE_MAX_SIZE\<close> of \<^verbatim>\<open>yale.h\<close> is missing;
  the specification (and the comment at the head of the source file) give the maximum
  size as rows*cols+1.
\<close>

definition NM_YALE_MAX_SIZE :: "'v yale_storage \<Rightarrow> nat" where
  "NM_YALE_MAX_SIZE s = shape s ! 0 * shape s ! 1 + 1"

text \<open>
  Modelled from the spec: the helper \<^verbatim>\<open>nm_storage_count_max_elements\<close> is missing; it
  counts the cells of the dense shape, the rows*cols of the specification's capacity
  formula. The product is a \<^verbatim>\<open>size_t\<close>, taken as 64 bits wide.
\<close>

definition size_t_wrap :: "int \<Rightarrow> nat" where
  "size_t_wrap x = nat (x mod 2 ^ 64)"

definition nm_storage_count_max_elements :: "'v yale_storage \<Rightarrow> nat" where
  "nm_storage_count_max_elements s = size_t_wrap (int (prod_list (shape s)))"

section \<open>Lifecycle\<close>

text \<open>
  \<^verbatim>\<open>alloc\<close> fills in \<open>ndnz\<close>, \<open>dtype\<close>, \<open>shape\<close> and \<open>dim\<close>. It leaves \<open>capacity\<close> and
  the two buffer pointers unset; each caller sets all three before any use. The model
  puts 0 and the allocator's contents there.
\<close>

definition alloc :: "'v env \<Rightarrow> nat \<Rightarrow> nat list \<Rightarrow> nat \<Rightarrow> 'v yale_storage" where
  "alloc E dt sh d =
     \<lparr>dtype = dt, dim = d, shape = sh, ndnz = 0, capacity = 0,
      ija = fresh_ija E, a = fresh_a E\<rparr>"

text \<open>
  \<^verbatim>\<open>nm_yale_storage_create\<close>. The subtraction \<^verbatim>\<open>count - shape[0] + 1\<close> is done in
  \<^verbatim>\<open>size_t\<close>, so it wraps when the shape has no columns.
\<close>

definition nm_yale_storage_create ::
  "'v env \<Rightarrow> nat \<Rightarrow> nat list \<Rightarrow> nat \<Rightarrow> nat \<Rightarrow> error + 'v yale_storage" where
  "nm_yale_storage_create E dt sh d init_capacity =
     (if d \<noteq> 2 then Inl NotImpError
      else
        let s = alloc E dt sh d;
            max_capacity =
              size_t_wrap (int (nm_storage_count_max_elements s) - int (shape s ! 0) + 1);
            cap = (if init_capacity < yale_minimum E (shape s) then yale_minimum E (shape s)
                   else if init_capacity > max_capacity then max_capacity
                   else init_capacity)
        in Inr (s\<lparr>capacity := cap, ija := fresh_ija E, a := fresh_a E\<rparr>))"

text \<open>
  Modelled from the spec: \<^verbatim>\<open>clear_diagonal_and_zero\<close> is defined in the missing header;
  the specification says that initialisation clears the diagonal to the zero of the value
  type and writes the canonical zero at \<open>a[R]\<close>.
\<close>

definition clear_diagonal_and_zero :: "('v::zero) yale_storage \<Rightarrow> 'v yale_storage" where
  "clear_diagonal_and_zero s =
     s\<lparr>a := fold (\<lambda>i f. f(i := 0)) [0..<shape s ! 0 + 1] (a s)\<rparr>"

definition init :: "('v::zero) yale_storage \<Rightarrow> 'v yale_storage" where
  "init s =
     (let IA_INIT = shape s ! 0 + 1
      in clear_diagonal_and_zero
           (s\<lparr>ija := fold (\<lambda>i f. f(i := IA_INIT)) [0..<IA_INIT] (ija s)\<rparr>))"

definition get_size :: "'v yale_storage \<Rightarrow> nat" where
  "get_size s = ija s (shape s ! 0)"

section \<open>Index search\<close>

text \<open>
  Both searches recurse on \<open>[left, right]\<close>. In C the unsigned \<^verbatim>\<open>mid - 1\<close> would wrap at
  \<open>mid = 0\<close>; column indices live at positions from \<open>rows + 1\<close> on, so this does not arise
  on a descriptor whose row pointers respect that, and the model ends the search there.
\<close>

function binary_search :: "(nat \<Rightarrow> nat) \<Rightarrow> nat \<Rightarrow> nat \<Rightarrow> nat \<Rightarrow> int" where
  "binary_search ij left right key =
     (if left > right then - 1
      else if ij ((left + right) div 2) = key then int ((left + right) div 2)
      else if ij ((left + right) div 2) > key
        then (if (left + right) div 2 = 0 then - 1
              else binary_search ij left ((left + right) div 2 - 1) key)
      else binary_search ij ((left + right) div 2 + 1) right key)"
  by pat_completeness auto
termination
  by (relation "measure (\<lambda>(ij, left, right, key). right + 1 - left)") auto

function insert_search :: "(nat \<Rightarrow> nat) \<Rightarrow> nat \<Rightarrow> nat \<Rightarrow> nat \<Rightarrow> nat \<times> bool" where
  "insert_search ij left right key =
     (if left > right then (left, False)
      else if ij ((left + right) div 2) = key then ((left + right) div 2, True)
      else if ij ((left + right) div 2) > key
        then (if (left + right) div 2 = 0 then (left, False)
              else insert_search ij left ((left + right) div 2 - 1) key)
      else insert_search ij ((left + right) div 2 + 1) right key)"
  by pat_completeness auto
termination
  by (relation "measure (\<lambda>(ij, left, right, key). right + 1 - left)") auto

section \<open>Vector insert and resize\<close>

text \<open>
  \<open>copy_loop dst src lo hi off\<close> is the loop
  \<^verbatim>\<open>for (i = lo; i < hi; ++i) dst[i+off] = src[i];\<close> between two distinct buffers.
\<close>

definition copy_loop ::
  "(nat \<Rightarrow> 'x) \<Rightarrow> (nat \<Rightarrow> 'x) \<Rightarrow> nat \<Rightarrow> nat \<Rightarrow> nat \<Rightarrow> (nat \<Rightarrow> 'x)" where
  "copy_loop dst src lo hi off = fold (\<lambda>i d. d(i + off := src i)) [lo..<hi] dst"

text \<open>
  \<open>shift_loop buf sz n cnt\<close> is the loop
  \<^verbatim>\<open>for (i = 0; i < cnt; ++i) buf[size+n-1-i] = buf[size-1-i];\<close> within one buffer.
\<close>

definition shift_loop :: "(nat \<Rightarrow> 'x) \<Rightarrow> nat \<Rightarrow> nat \<Rightarrow> nat \<Rightarrow> (nat \<Rightarrow> 'x)" where
  "shift_loop buf sz n cnt =
     fold (\<lambda>i b. b(sz + n - 1 - i := b (sz - 1 - i))) [0..<cnt] buf"

text \<open>
  \<open>store_loop buf pos xs n\<close> is the loop
  \<^verbatim>\<open>for (i = 0; i < n; ++i) buf[pos+i] = xs[i];\<close>.
\<close>

definition store_loop :: "(nat \<Rightarrow> 'x) \<Rightarrow> nat \<Rightarrow> 'x list \<Rightarrow> nat \<Rightarrow> (nat \<Rightarrow> 'x)" where
  "store_loop buf pos xs n = fold (\<lambda>i b. b(pos + i := xs ! i)) [0..<n] buf"

text \<open>
  An exception (\<^verbatim>\<open>rb_raise\<close>) is the left summand; it carries the descriptor as it is
  when the exception leaves the function, so that "left unchanged" can be stated.

  \<^verbatim>\<open>vector_insert_resize\<close>: the bound of the second pair of loops is the source's
  \<^verbatim>\<open>current_size - pos + n - 1\<close> (no wrap for \<open>pos \<le> current_size\<close> and \<open>1 \<le> n\<close>).
\<close>

definition vector_insert_resize ::
  "'v env \<Rightarrow> 'v yale_storage \<Rightarrow> nat \<Rightarrow> nat \<Rightarrow> nat list \<Rightarrow> nat \<Rightarrow> bool
     \<Rightarrow> (error \<times> 'v yale_storage) + ('v yale_storage \<times> char)" where
  "vector_insert_resize E s current_size pos j n struct_only =
     (if growth E (capacity s) > NM_YALE_MAX_SIZE s \<and> current_size + n > NM_YALE_MAX_SIZE s
      then Inl (NoMemError, s)
      else
        let new_capacity = growth E (capacity s);
            new_capacity = (if new_capacity > NM_YALE_MAX_SIZE s then NM_YALE_MAX_SIZE s
                            else new_capacity);
            new_capacity = (if new_capacity < current_size + n then current_size + n
                            else new_capacity);
            new_ija = fresh_ija E;
            new_a = fresh_a E;
            old_ija = ija s;
            old_a = a s;
            new_ija = copy_loop new_ija old_ija 0 pos 0;
            new_a = (if struct_only then new_a else copy_loop new_a old_a 0 pos 0);
            new_ija = copy_loop new_ija old_ija pos (current_size - pos + n - 1) n;
            new_a = (if struct_only then new_a
                     else copy_loop new_a old_a pos (current_size - pos + n - 1) n)
        in Inr (s\<lparr>capacity := new_capacity, ija := new_ija, a := new_a\<rparr>, CHR ''i''))"

text \<open>
  \<^verbatim>\<open>vector_insert\<close>. The in-place shift runs \<^verbatim>\<open>size - pos\<close> times (no wrap for
  \<open>pos \<le> size\<close>). With \<open>struct_only\<close> the value pointer is \<^verbatim>\<open>NULL\<close> and is not read.
\<close>

definition vector_insert ::
  "'v env \<Rightarrow> 'v yale_storage \<Rightarrow> nat \<Rightarrow> nat list \<Rightarrow> 'v list \<Rightarrow> nat \<Rightarrow> bool
     \<Rightarrow> (error \<times> 'v yale_storage) + ('v yale_storage \<times> char)" where
  "vector_insert E s pos j val n struct_only =
     (if pos < shape s ! 0 then Inl (ArgError, s)
      else
        let sz = get_size s in
        case (if sz + n > capacity s
              then vector_insert_resize E s sz pos j n struct_only
              else Inr (s\<lparr>ija := shift_loop (ija s) sz n (sz - pos),
                          a := (if struct_only then a s
                                else shift_loop (a s) sz n (sz - pos))\<rparr>, CHR ''i''))
        of Inl e \<Rightarrow> Inl e
         | Inr (s1, _) \<Rightarrow>
             Inr (s1\<lparr>ija := store_loop (ija s1) pos j n,
                     a := (if struct_only then a s1 else store_loop (a s1) pos val n)\<rparr>,
                  CHR ''i''))"

text \<open>\<^verbatim>\<open>increment_ia_after\<close>: add \<open>n\<close> to \<open>ija[i+1 .. ija_size]\<close>.\<close>

definition increment_ia_after ::
  "'v yale_storage \<Rightarrow> nat \<Rightarrow> nat \<Rightarrow> nat \<Rightarrow> 'v yale_storage" where
  "increment_ia_after s ija_size i n =
     s\<lparr>ija := fold (\<lambda>k f. f(k := f k + n)) [i + 1..<ija_size + 1] (ija s)\<rparr>"

section \<open>Accessors\<close>

text \<open>
  \<^verbatim>\<open>ref\<close> returns a pointer into the value buffer; the model returns the position it
  points to, and the value behind the handle is \<open>a s (ref s r c)\<close>.

  The coordinates are \<^verbatim>\<open>size_t\<close>; the call of \<^verbatim>\<open>binary_search\<close> converts the column
  \<^verbatim>\<open>coords[1]\<close> to the index type. The model keeps the column as a natural number: it
  follows the code for every column that the index type represents, which covers the
  columns of the matrix (the index type holds \<open>max(rows, cols)\<close>), and the statements
  about \<open>ref\<close> and \<open>set\<close> below that need it take the column in bounds.
\<close>

definition ref :: "'v yale_storage \<Rightarrow> nat \<Rightarrow> nat \<Rightarrow> nat" where
  "ref s r c =
     (if r = c then r
      else if ija s r = ija s (r + 1) then shape s ! 0
      else
        let pos = binary_search (ija s) (ija s r) (ija s (r + 1) - 1) c
        in if pos \<noteq> - 1 \<and> ija s (nat pos) = c then nat pos else shape s ! 0)"

text \<open>
  \<^verbatim>\<open>set\<close> (the name \<open>set\<close> is taken in HOL). As in \<open>ref\<close>, the column is converted to
  the index type at the call of \<^verbatim>\<open>insert_search\<close> and when it is stored into \<open>ija\<close>; the
  model follows the code for the columns the index type represents.
\<close>

definition set_yale ::
  "'v env \<Rightarrow> 'v yale_storage \<Rightarrow> nat \<Rightarrow> nat \<Rightarrow> 'v
     \<Rightarrow> (error \<times> 'v yale_storage) + ('v yale_storage \<times> char)" where
  "set_yale E s r c v =
     (if r = c then Inr (s\<lparr>a := (a s)(r := v)\<rparr>, CHR ''r'')
      else if ija s r = ija s (r + 1) then
        (case vector_insert E s (ija s r) [c] [v] 1 False of
           Inl e \<Rightarrow> Inl e
         | Inr (s1, ins_type) \<Rightarrow>
             (let s2 = increment_ia_after s1 (shape s1 ! 0) r 1
              in Inr (s2\<lparr>ndnz := ndnz s2 + 1\<rparr>, ins_type)))
      else
        (case insert_search (ija s) (ija s r) (ija s (r + 1) - 1) c of
           (pos, found) \<Rightarrow>
             if found then Inr (s\<lparr>ija := (ija s)(pos := c), a := (a s)(pos := v)\<rparr>, CHR ''r'')
             else
               (case vector_insert E s pos [c] [v] 1 False of
                  Inl e \<Rightarrow> Inl e
                | Inr (s1, ins_type) \<Rightarrow>
                    (let s2 = increment_ia_after s1 (shape s1 ! 0) r 1
                     in Inr (s2\<lparr>ndnz := ndnz s2 + 1\<rparr>, ins_type)))))"

text \<open>A run of \<^verbatim>\<open>set\<close> calls; the first exception ends it.\<close>

fun set_all ::
  "'v env \<Rightarrow> 'v yale_storage \<Rightarrow> (nat \<times> nat \<times> 'v) list
     \<Rightarrow> (error \<times> 'v yale_storage) + 'v yale_storage" where
  "set_all E s [] = Inr s"
| "set_all E s ((r, c, v) # ops) =
     (case set_yale E s r c v of Inl e \<Rightarrow> Inl e | Inr (s1, _) \<Rightarrow> set_all E s1 ops)"

section \<open>Whole-matrix equality\<close>

text \<open>
  \<^verbatim>\<open>ndrow_is_empty\<close>: no off-diagonal entry in \<open>[ija, ija_next)\<close>, or only stored zeros.
  Both sides of a comparison are read at the one value type \<open>'v\<close>.
\<close>

definition ndrow_is_empty :: "('v::zero) yale_storage \<Rightarrow> nat \<Rightarrow> nat \<Rightarrow> bool" where
  "ndrow_is_empty s ija0 ija_next =
     (if ija0 = ija_next then True
      else list_all (\<lambda>p. a s p = 0) [ija0..<ija_next])"

text \<open>
  The local variables of the \<^verbatim>\<open>while\<close> loop of \<^verbatim>\<open>ndrow_eqeq_ndrow\<close>.
\<close>

record ndrow_vars =
  l_ija :: nat
  r_ija :: nat
  l_ja :: nat
  r_ja :: nat
  ja :: nat
  l_no_more :: bool
  r_no_more :: bool

text \<open>
  The loop itself, one call per iteration. It has no bound of its own, so \<open>None\<close> stands
  for a run that does not end. The last branch is the source's \<^verbatim>\<open>else\<close> that only
  prints and goes round again.
\<close>

partial_function (option) ndrow_loop ::
  "('v::zero) yale_storage \<Rightarrow> 'v yale_storage \<Rightarrow> nat \<Rightarrow> nat \<Rightarrow> ndrow_vars \<Rightarrow> bool option" where
  "ndrow_loop l r l_ija_next r_ija_next x =
     (if l_no_more x \<and> r_no_more x then Some True
      else if l_ja x = r_ja x then
        (if a r (r_ija x) \<noteq> a l (l_ija x) then Some False
         else ndrow_loop l r l_ija_next r_ija_next
                \<lparr>l_ija = l_ija x + 1, r_ija = r_ija x + 1,
                 l_ja = (if l_ija x + 1 < l_ija_next then ija l (l_ija x + 1) else l_ja x),
                 r_ja = (if r_ija x + 1 < r_ija_next then ija r (r_ija x + 1) else r_ja x),
                 ja = min (if l_ija x + 1 < l_ija_next then ija l (l_ija x + 1) else l_ja x)
                          (if r_ija x + 1 < r_ija_next then ija r (r_ija x + 1) else r_ja x),
                 l_no_more = (if l_ija x + 1 < l_ija_next then l_no_more x else True),
                 r_no_more = (if r_ija x + 1 < r_ija_next then r_no_more x else True)\<rparr>)
      else if l_no_more x \<or> ja x < l_ja x then
        (if a r (r_ija x) \<noteq> 0 then Some False
         else if r_ija x + 1 < r_ija_next
           then ndrow_loop l r l_ija_next r_ija_next
                  (x\<lparr>r_ija := r_ija x + 1, r_ja := ija r (r_ija x + 1),
                     ja := min (l_ja x) (ija r (r_ija x + 1))\<rparr>)
           else ndrow_loop l r l_ija_next r_ija_next
                  (x\<lparr>r_ija := r_ija x + 1, l_no_more := True\<rparr>))
      else if r_no_more x \<or> ja x < r_ja x then
        (if a l (l_ija x) \<noteq> 0 then Some False
         else if l_ija x + 1 < l_ija_next
           then ndrow_loop l r l_ija_next r_ija_next
                  (x\<lparr>l_ija := l_ija x + 1, l_ja := ija l (l_ija x + 1),
                     ja := min (ija l (l_ija x + 1)) (r_ja x)\<rparr>)
           else ndrow_loop l r l_ija_next r_ija_next
                  (x\<lparr>l_ija := l_ija x + 1, l_no_more := True\<rparr>))
      else ndrow_loop l r l_ija_next r_ija_next x)"

definition ndrow_eqeq_ndrow ::
  "('v::zero) yale_storage \<Rightarrow> 'v yale_storage \<Rightarrow> nat \<Rightarrow> nat \<Rightarrow> nat \<Rightarrow> nat \<Rightarrow> bool option" where
  "ndrow_eqeq_ndrow l r l_ija0 l_ija_next r_ija0 r_ija_next =
     ndrow_loop l r l_ija_next r_ija_next
       \<lparr>l_ija = l_ija0, r_ija = r_ija0, l_ja = ija l l_ija0, r_ja = ija r r_ija0,
        ja = min (ija l l_ija0) (ija r r_ija0), l_no_more = False, r_no_more = False\<rparr>"

text \<open>The loop of \<^verbatim>\<open>eqeq\<close> over the rows, leaving at the first \<^verbatim>\<open>return false\<close>.\<close>

fun eqeq_rows :: "('v::zero) yale_storage \<Rightarrow> 'v yale_storage \<Rightarrow> nat list \<Rightarrow> bool option" where
  "eqeq_rows left right [] = Some True"
| "eqeq_rows left right (i # rest) =
     (if ndrow_is_empty left (ija left i) (ija left (i + 1)) then
        (if \<not> ndrow_is_empty right (ija right i) (ija right (i + 1)) then Some False
         else eqeq_rows left right rest)
      else if ndrow_is_empty right (ija right i) (ija right (i + 1)) then Some False
      else
        (case ndrow_eqeq_ndrow left right (ija left i) (ija left (i + 1))
                (ija right i) (ija right (i + 1)) of
           None \<Rightarrow> None
         | Some b \<Rightarrow> if \<not> b then Some False else eqeq_rows left right rest))"

definition eqeq :: "('v::zero) yale_storage \<Rightarrow> 'v yale_storage \<Rightarrow> bool option" where
  "eqeq left right =
     (if list_ex (\<lambda>index. a left index \<noteq> a right index) [0..<shape left ! 0] then Some False
      else eqeq_rows left right [0..<shape left ! 0])"

text \<open>
  The matrix a descriptor stands for, read cell by cell through the code's own read
  accessor: the value behind the handle that \<open>ref\<close> returns.
\<close>

definition cell :: "'v yale_storage \<Rightarrow> nat \<Rightarrow> nat \<Rightarrow> 'v" where
  "cell s r c = a s (ref s r c)"

definition dense :: "'v yale_storage \<Rightarrow> 'v list list" where
  "dense s = map (\<lambda>r. map (\<lambda>c. cell s r c) [0..<shape s ! 1]) [0..<shape s ! 0]"

section \<open>Copying, import and merge\<close>

text \<open>
  \<^verbatim>\<open>copy_alloc_struct\<close> copies the descriptor fields and the first \<open>size\<close> entries of
  \<open>ija\<close>; the value buffer is allocated and not written. Its last parameter is unused
  in the source as well.
\<close>

definition copy_alloc_struct ::
  "'v env \<Rightarrow> 'v yale_storage \<Rightarrow> nat \<Rightarrow> nat \<Rightarrow> nat \<Rightarrow> 'v yale_storage" where
  "copy_alloc_struct E rhs new_dtype new_capacity new_size =
     \<lparr>dtype = new_dtype, dim = dim rhs, shape = shape rhs, ndnz = ndnz rhs,
      capacity = new_capacity,
      ija = copy_loop (fresh_ija E) (ija rhs) 0 (get_size rhs) 0,
      a = fresh_a E\<rparr>"





text \<open>
  \<^verbatim>\<open>create_merged\<close>. The source keeps \<^verbatim>\<open>sija\<close>, a pointer to the index buffer of the
  result taken before the loops; an insertion that resizes leaves it pointing at the
  buffer that was released. \<open>stale\<close> is \<open>None\<close> while \<^verbatim>\<open>sija\<close> still is the live buffer and
  \<open>Some f\<close> with the released buffer's contents afterwards. The local \<^verbatim>\<open>ins_type\<close> is read
  in the source before it is assigned; its first contents are the parameter \<open>ins0\<close>.
  The loop over \<^verbatim>\<open>r_ija\<close> does not use its counter, so a round takes none.
\<close>

type_synonym 'v merge_state =
  "'v yale_storage \<times> (nat \<Rightarrow> nat) option \<times> char \<times> nat \<times> nat"

definition merge_round ::
  "'v env \<Rightarrow> nat \<Rightarrow> 'v merge_state \<Rightarrow> (error \<times> 'v yale_storage) + 'v merge_state" where
  "merge_round E i st =
     (case st of (s, stale, ins_type, ija0, ija_next) \<Rightarrow>
        let sija = (case stale of None \<Rightarrow> ija s | Some f \<Rightarrow> f);
            ja = sija ija0;
            stale1 = (if stale = None \<and> get_size s + 1 > capacity s then Some (ija s)
                      else stale)
        in
          if ija0 = ija_next then
            (case vector_insert E s ija0 [ja] [] 1 True of
               Inl e \<Rightarrow> Inl e
             | Inr (s1, t) \<Rightarrow>
                 (let s2 = increment_ia_after s1 (shape s1 ! 0) i 1
                  in Inr (s2\<lparr>ndnz := ndnz s2 + 1\<rparr>, stale1, t, ija0 + 1,
                          if t = CHR ''i'' then ija_next + 1 else ija_next)))
          else
            (case insert_search (ija s) ija0 (ija_next - 1) (sija ija0) of
               (pos, found) \<Rightarrow>
                 if \<not> found then
                   (case vector_insert E s pos [ja] [] 1 True of
                      Inl e \<Rightarrow> Inl e
                    | Inr (s1, _) \<Rightarrow>
                        (let s2 = increment_ia_after s1 (shape s1 ! 0) i 1
                         in Inr (s2\<lparr>ndnz := ndnz s2 + 1\<rparr>, stale1, ins_type, pos + 1,
                                 if ins_type = CHR ''i'' then ija_next + 1 else ija_next)))
                 else Inr (s, stale, ins_type, pos + 1, ija_next)))"

fun merge_rounds ::
  "'v env \<Rightarrow> nat \<Rightarrow> nat \<Rightarrow> 'v merge_state \<Rightarrow> (error \<times> 'v yale_storage) + 'v merge_state" where
  "merge_rounds E i 0 st = Inr st"
| "merge_rounds E i (Suc k) st =
     (case merge_round E i st of Inl e \<Rightarrow> Inl e | Inr st1 \<Rightarrow> merge_rounds E i k st1)"

fun merge_rows ::
  "'v env \<Rightarrow> (nat \<Rightarrow> nat) \<Rightarrow> nat list \<Rightarrow> 'v yale_storage \<times> (nat \<Rightarrow> nat) option \<times> char
     \<Rightarrow> (error \<times> 'v yale_storage) + ('v yale_storage \<times> (nat \<Rightarrow> nat) option \<times> char)" where
  "merge_rows E rija [] st = Inr st"
| "merge_rows E rija (i # rest) (s, stale, ins_type) =
     (let sija = (case stale of None \<Rightarrow> ija s | Some f \<Rightarrow> f)
      in case merge_rounds E i (rija (i + 1) - rija i)
                (s, stale, ins_type, sija i, sija (i + 1)) of
           Inl e \<Rightarrow> Inl e
         | Inr (s1, stale1, ins_type1, _, _) \<Rightarrow> merge_rows E rija rest (s1, stale1, ins_type1))"

text \<open>
  The second descriptor is \<open>None\<close> when \<^verbatim>\<open>right\<close> is the very object \<^verbatim>\<open>left\<close>
  (\<^verbatim>\<open>right == left\<close>), and \<open>Some r\<close> for another object.
\<close>

definition create_merged ::
  "'v env \<Rightarrow> char \<Rightarrow> 'v yale_storage \<Rightarrow> 'v yale_storage option
     \<Rightarrow> (error \<times> 'v yale_storage) + 'v yale_storage" where
  "create_merged E ins0 left right =
     (let sz = get_size left;
          rcap = (case right of None \<Rightarrow> capacity left | Some r \<Rightarrow> capacity r);
          s = copy_alloc_struct E left (dtype left) (max (capacity left) rcap) sz;
          s = s\<lparr>a := (a s)(shape s ! 0 := a left (shape left ! 0))\<rparr>
      in case right of
           None \<Rightarrow> Inr s
         | Some r \<Rightarrow>
             (case merge_rows E (ija r) [0..<shape s ! 0] (s, None, ins0) of
                Inl e \<Rightarrow> Inl e
              | Inr (s1, _, _) \<Rightarrow> Inr s1))"

text \<open>
  What every round of the merge keeps: shape, type tag and rank of the left operand,
  an \<open>ndnz\<close> that has not dropped below the left operand's, and a value buffer that
  differs from freshly allocated memory at most in the zero slot.
\<close>

definition merge_inv :: "'v env \<Rightarrow> 'v yale_storage \<Rightarrow> 'v yale_storage \<Rightarrow> bool" where
  "merge_inv E left s \<longleftrightarrow>
     shape s = shape left \<and> dtype s = dtype left \<and> dim s = dim left \<and>
     ndnz left \<le> ndnz s \<and> (\<forall>k. k \<noteq> shape left ! 0 \<longrightarrow> a s k = fresh_a E k)"

section \<open>Invariants of the layout\<close>

text \<open>
  The invariants of the specification as tests on a descriptor: I1 (each row's column
  indices strictly increasing), I2 (row pointers start at \<open>rows + 1\<close> and do not decrease;
  the size is \<open>ija[rows]\<close> by \<open>get_size\<close>) and I4 (no diagonal column in the tail).
\<close>

definition row_sorted :: "'v yale_storage \<Rightarrow> nat \<Rightarrow> bool" where
  "row_sorted s i = sorted_wrt (<) (map (ija s) [ija s i..<ija s (i + 1)])"

definition I1 :: "'v yale_storage \<Rightarrow> bool" where
  "I1 s = list_all (row_sorted s) [0..<shape s ! 0]"

definition I2 :: "'v yale_storage \<Rightarrow> bool" where
  "I2 s = (shape s ! 0 + 1 \<le> ija s 0 \<and>
           list_all (\<lambda>i. ija s i \<le> ija s (i + 1)) [0..<shape s ! 0])"

definition I4 :: "'v yale_storage \<Rightarrow> bool" where
  "I4 s = list_all (\<lambda>i. list_all (\<lambda>p. ija s p \<noteq> i) [ija s i..<ija s (i + 1)])
            [0..<shape s ! 0]"

section \<open>Concrete environments and descriptors\<close>

text \<open>
  An environment for running the code on concrete input: growth factor 1.5, a minimum
  capacity of \<open>2 * rows + 1\<close>, and freshly allocated memory that holds zeros.
\<close>

definition E_real :: "real env" where
  "E_real = \<lparr>growth = growth_1_5, yale_minimum = (\<lambda>sh. 2 * sh ! 0 + 1),
             fresh_ija = (\<lambda>_. 0), fresh_a = (\<lambda>_. 0)\<rparr>"

text \<open>
  A second environment: growth factor 2, a minimum capacity of \<open>rows + 1\<close>, and fresh
  memory that holds nines.
\<close>

definition E_other :: "real env" where
  "E_other = \<lparr>growth = growth_2, yale_minimum = (\<lambda>sh. sh ! 0 + 1),
              fresh_ija = (\<lambda>_. 9), fresh_a = (\<lambda>_. 9)\<rparr>"

text \<open>
  A matrix with more rows than columns, filled until its size is \<open>rows * cols + 1\<close>:
  created with the smallest capacity, initialised, and three cells off the diagonal set.
\<close>

definition tall_3x2 :: "real yale_storage" where
  "tall_3x2 =
     (case nm_yale_storage_create E_real 0 [3, 2] 2 0 of
        Inr s0 \<Rightarrow>
          (case set_all E_real (init s0) [(0, 1, 4), (1, 0, 5), (2, 0, 6)] of Inr s \<Rightarrow> s))"

text \<open>
  A single row of four columns, created with requested capacity 4 and filled to that
  capacity: the diagonal cell and two cells off the diagonal.
\<close>

definition row_1x4 :: "real yale_storage" where
  "row_1x4 =
     (case nm_yale_storage_create E_real 0 [1, 4] 2 4 of
        Inr s0 \<Rightarrow>
          (case set_all E_real (init s0) [(0, 0, 4), (0, 2, 7), (0, 3, 8)] of Inr s \<Rightarrow> s))"

text \<open>
  A column of two rows, created with the smallest capacity and initialised: its capacity
  (5 with this environment) is above \<open>rows * cols + 1 = 3\<close>.
\<close>

definition col_2x1 :: "real yale_storage" where
  "col_2x1 = (case nm_yale_storage_create E_real 0 [2, 1] 2 0 of Inr s0 \<Rightarrow> init s0)"



definition old_a :: "nat \<Rightarrow> real" where
  "old_a = (\<lambda>_. 0)(0 := 3, 1 := 4, 2 := 5)"

text \<open>Scenario S2 of the specification: a 3 by 3 matrix with its diagonal and (0,2) set.\<close>

definition s2_3x3 :: "real yale_storage" where
  "s2_3x3 =
     (case nm_yale_storage_create E_real 0 [3, 3] 2 4 of
        Inr s0 \<Rightarrow>
          (case set_all E_real (init s0) [(0, 0, 1), (1, 1, 2), (2, 2, 3), (0, 2, 7)] of
             Inr s \<Rightarrow> s))"

text \<open>The single row of four columns after one more \<open>set\<close>, which has to resize.\<close>

definition row_1x4_next :: "real yale_storage" where
  "row_1x4_next = fst (projr (set_yale E_real row_1x4 0 1 5))"

text \<open>
  Two 2 by 3 matrices with the same cells. \<open>eq_A\<close> stores a zero at (0,2), after the entry
  (0,1) = 5; \<open>eq_B\<close> stores nothing there. Both store (1,0) = 7 in the next row.
\<close>

definition eq_A :: "real yale_storage" where
  "eq_A =
     (case nm_yale_storage_create E_real 0 [2, 3] 2 6 of
        Inr s0 \<Rightarrow>
          (case set_all E_real (init s0)
                  [(0, 0, 1), (1, 1, 2), (0, 1, 5), (0, 2, 0), (1, 0, 7)] of Inr s \<Rightarrow> s))"

definition eq_B :: "real yale_storage" where
  "eq_B =
     (case nm_yale_storage_create E_real 0 [2, 3] 2 6 of
        Inr s0 \<Rightarrow>
          (case set_all E_real (init s0)
                  [(0, 0, 1), (1, 1, 2), (0, 1, 5), (1, 0, 7)] of Inr s \<Rightarrow> s))"

text \<open>
  The same pair with the stored zero at (0,1), in front of the entry (0,2) = 5: scenario
  S6 of the specification.
\<close>

definition s6_A :: "real yale_storage" where
  "s6_A =
     (case nm_yale_storage_create E_real 0 [2, 3] 2 6 of
        Inr s0 \<Rightarrow>
          (case set_all E_real (init s0)
                  [(0, 0, 1), (1, 1, 2), (0, 1, 0), (0, 2, 5), (1, 0, 7)] of Inr s \<Rightarrow> s))"

definition s6_B :: "real yale_storage" where
  "s6_B =
     (case nm_yale_storage_create E_real 0 [2, 3] 2 6 of
        Inr s0 \<Rightarrow>
          (case set_all E_real (init s0)
                  [(0, 0, 1), (1, 1, 2), (0, 2, 5), (1, 0, 7)] of Inr s \<Rightarrow> s))"



text \<open>A 2 by 3 matrix with its diagonal set and nothing stored off the diagonal.\<close>

definition diag_2x3 :: "real yale_storage" where
  "diag_2x3 =
     (case nm_yale_storage_create E_real 0 [2, 3] 2 6 of
        Inr s0 \<Rightarrow>
          (case set_all E_real (init s0) [(0, 0, 1), (1, 1, 2)] of Inr s \<Rightarrow> s))"

text \<open>A 3 by 3 matrix, created and initialised, with nothing set.\<close>

definition empty_3x3 :: "real yale_storage" where
  "empty_3x3 = (case nm_yale_storage_create E_real 0 [3, 3] 2 4 of Inr s0 \<Rightarrow> init s0)"

text \<open>
  A 2 by 5 matrix created with requested capacity 7 and filled to that capacity: (0,2) in
  row 0 and three cells in row 1.
\<close>

definition wide_2x5 :: "real yale_storage" where
  "wide_2x5 =
     (case nm_yale_storage_create E_real 0 [2, 5] 2 7 of
        Inr s0 \<Rightarrow>
          (case set_all E_real (init s0) [(0, 2, 4), (1, 0, 5), (1, 2, 6), (1, 3, 7)] of
             Inr s \<Rightarrow> s))"

section \<open>Evaluation on concrete positions\<close>

lemma upt4: "[0..<4] = [0,1,2,3]" by (simp add: upt_rec)

lemma create33:
  "nm_yale_storage_create E dt [3,3] 2 4 =
     Inr (\<lparr>dtype = dt, dim = 2, shape = [3,3], ndnz = 0,
          capacity = (if 4 < yale_minimum E [3,3] then yale_minimum E [3,3] else 4),
          ija = fresh_ija E, a = fresh_a E\<rparr>)"
  by (simp add: nm_yale_storage_create_def alloc_def Let_def nm_storage_count_max_elements_def size_t_wrap_def)

lemma init33:
  "init (\<lparr>dtype = dt, dim = 2, shape = [3,3], ndnz = 0, capacity = cp, ija = fi, a = fa\<rparr> :: ('v::zero) yale_storage) =
     \<lparr>dtype = dt, dim = 2, shape = [3,3], ndnz = 0, capacity = cp,
      ija = fi(0 := 4, 1 := 4, 2 := 4, 3 := 4), a = fa(0 := 0, 1 := 0, 2 := 0, 3 := 0)\<rparr>"
  by (simp add: init_def clear_diagonal_and_zero_def Let_def upt4)


declare insert_search.simps [simp del] binary_search.simps [simp del]

lemma insert_search_numeral:
  "insert_search ij (numeral l) (numeral r) key =
     (if numeral l > (numeral r :: nat) then (numeral l, False)
      else if ij ((numeral l + numeral r) div 2) = key then ((numeral l + numeral r) div 2, True)
      else if ij ((numeral l + numeral r) div 2) > key
        then (if (numeral l + numeral r) div 2 = (0::nat) then (numeral l, False)
              else insert_search ij (numeral l) ((numeral l + numeral r) div 2 - 1) key)
      else insert_search ij ((numeral l + numeral r) div 2 + 1) (numeral r) key)"
  by (rule insert_search.simps)

lemma binary_search_numeral:
  "binary_search ij (numeral l) (numeral r) key =
     (if numeral l > (numeral r :: nat) then - 1
      else if ij ((numeral l + numeral r) div 2) = key then int ((numeral l + numeral r) div 2)
      else if ij ((numeral l + numeral r) div 2) > key
        then (if (numeral l + numeral r) div 2 = (0::nat) then - 1
              else binary_search ij (numeral l) ((numeral l + numeral r) div 2 - 1) key)
      else binary_search ij ((numeral l + numeral r) div 2 + 1) (numeral r) key)"
  by (rule binary_search.simps)

lemmas yale_defs = insert_search_numeral binary_search_numeral  set_yale_def vector_insert_def vector_insert_resize_def increment_ia_after_def
  get_size_def NM_YALE_MAX_SIZE_def copy_loop_def shift_loop_def store_loop_def Let_def

lemma diag3:
  "set_all E (\<lparr>dtype = dt, dim = 2, shape = [3,3], ndnz = 0, capacity = cp,
      ija = fi, a = fa\<rparr> :: real yale_storage) ((0,0,1) # (1,1,2) # (2,2,3) # ops) =
   set_all E \<lparr>dtype = dt, dim = 2, shape = [3,3], ndnz = 0, capacity = cp,
      ija = fi, a = fa(0 := 1, 1 := 2, 2 := 3)\<rparr> ops"
  by (simp add: set_yale_def)


lemma S2_step:
  fixes fa :: "nat \<Rightarrow> real"
  assumes "(cp = 4 \<and> 6 \<le> growth E 4) \<or> 6 \<le> cp"
  shows "\<exists>s4. set_yale E \<lparr>dtype = dt, dim = 2, shape = [3,3], ndnz = 0, capacity = cp,
      ija = fi(0 := 4, 1 := 4, 2 := 4, 3 := 4), a = fa\<rparr> 0 2 7 = Inr (s4, CHR ''i'')
     \<and> shape s4 = [3,3] \<and> 6 \<le> capacity s4 \<and> ndnz s4 = 1
     \<and> ija s4 0 = 4 \<and> ija s4 1 = 5 \<and> ija s4 2 = 5 \<and> ija s4 3 = 5 \<and> ija s4 4 = 2
     \<and> a s4 4 = 7"
  using assms
  by (auto simp add: yale_defs upt_rec)

lemma S3_step:
  fixes s :: "real yale_storage"
  assumes "shape s = [3,3]" "6 \<le> capacity s"
    "ija s 0 = 4" "ija s 1 = 5" "ija s 2 = 5" "ija s 3 = 5" "ija s 4 = 2" "a s 4 = 7"
  shows "\<exists>s5. insert_search (ija s) (ija s 0) (ija s 1 - 1) 1 = (4, False)
     \<and> set_yale E s 0 1 5 = Inr (s5, CHR ''i'')
     \<and> map (ija s5) [4..<6] = [1,2] \<and> map (a s5) [4..<6] = [5,7]
     \<and> map (ija s5) [0..<4] = [4,6,6,6]"
proof -
  have "ija s (Suc 0) = 5" "ija s (Suc (Suc 0)) = 5" "ija s (Suc (Suc (Suc 0))) = 5"
    using assms by (simp_all add: numeral_2_eq_2 [symmetric] numeral_3_eq_3 [symmetric])
  with assms show ?thesis
    by (simp add: yale_defs upt_rec)
qed

section \<open>Scenario S3\<close>

text \<open>
  Claim C4. A 3 by 3 matrix of reals is created with requested capacity 4 and initialised;
  the diagonal is set to 1, 2, 3 and then (0,2) to 7, which reaches \<open>ija[4] = 2\<close>,
  \<open>a[4] = 7\<close>, \<open>ija[0..4] = [4,5,5,5]\<close> and size 5. Then \<open>set((0,1), 5)\<close> finds insertion
  position 4, returns \<open>'i'\<close>, and leaves \<open>ija[4..6] = [1,2]\<close>, \<open>a[4..6] = [5,7]\<close>,
  \<open>ija[0..4] = [4,6,6,6]\<close>. The values are only stored and moved, so the reals stand for
  the 64-bit floats. The missing macros enter through the hypothesis: the capacity
  after creation is 4 and grows to at least 6 (factor 1.5 or 2), or it is at least 6
  from the start; the contents of fresh memory do not matter.
\<close>

theorem S3_scenario:
  fixes E :: "real env"
  assumes "(yale_minimum E [3,3] \<le> 4 \<and> 6 \<le> growth E 4) \<or> 6 \<le> yale_minimum E [3,3]"
  shows "\<exists>s0 s4 s5.
     nm_yale_storage_create E dt [3,3] 2 4 = Inr s0 \<and>
     set_all E (init s0) [(0,0,1),(1,1,2),(2,2,3),(0,2,7)] = Inr s4 \<and>
     ija s4 4 = 2 \<and> a s4 4 = 7 \<and> map (ija s4) [0..<4] = [4,5,5,5] \<and> get_size s4 = 5 \<and>
     insert_search (ija s4) (ija s4 0) (ija s4 1 - 1) 1 = (4, False) \<and>
     set_yale E s4 0 1 5 = Inr (s5, CHR ''i'') \<and>
     map (ija s5) [4..<6] = [1,2] \<and> map (a s5) [4..<6] = [5,7] \<and>
     map (ija s5) [0..<4] = [4,6,6,6]"
proof -
  define cp where "cp = (if 4 < yale_minimum E [3,3] then yale_minimum E [3,3] else 4)"
  have cp: "(cp = 4 \<and> 6 \<le> growth E 4) \<or> 6 \<le> cp"
    using assms by (auto simp: cp_def)
  define s0 :: "real yale_storage" where "s0 = \<lparr>dtype = dt, dim = 2, shape = [3,3], ndnz = 0,
          capacity = cp, ija = fresh_ija E, a = fresh_a E\<rparr>"
  have c: "nm_yale_storage_create E dt [3,3] 2 4 = Inr s0"
    by (simp add: create33 s0_def cp_def)
  obtain s4 where s4: "set_yale E \<lparr>dtype = dt, dim = 2, shape = [3,3], ndnz = 0, capacity = cp,
      ija = (fresh_ija E)(0 := 4, 1 := 4, 2 := 4, 3 := 4),
      a = (fresh_a E)(0 := 0, 1 := 0, 2 := 0, 3 := 0, 0 := 1, 1 := 2, 2 := 3)\<rparr> 0 2 7
        = Inr (s4, CHR ''i'')"
    and p4: "shape s4 = [3,3]" "6 \<le> capacity s4"
     "ija s4 0 = 4" "ija s4 1 = 5" "ija s4 2 = 5" "ija s4 3 = 5" "ija s4 4 = 2" "a s4 4 = 7"
    using S2_step [OF cp] by blast
  have run: "set_all E (init s0) [(0,0,1),(1,1,2),(2,2,3),(0,2,7)] = Inr s4"
    unfolding s0_def init33 diag3 using s4 by simp
  from S3_step [OF p4, of E] obtain s5 where
    s5: "insert_search (ija s4) (ija s4 0) (ija s4 1 - 1) 1 = (4, False)
     \<and> set_yale E s4 0 1 5 = Inr (s5, CHR ''i'')
     \<and> map (ija s5) [4..<6] = [1,2] \<and> map (a s5) [4..<6] = [5,7]
     \<and> map (ija s5) [0..<4] = [4,6,6,6]"
    by (erule exE)
  have r4: "ija s4 4 = 2 \<and> a s4 4 = 7 \<and> map (ija s4) [0..<4] = [4,5,5,5] \<and> get_size s4 = 5"
    using p4 by (simp add: upt4 get_size_def)
  show ?thesis
    by (rule exI [of _ s0], rule exI [of _ s4], rule exI [of _ s5])
       (intro conjI c run r4 [THEN conjunct1] r4 [THEN conjunct2, THEN conjunct1]
          r4 [THEN conjunct2, THEN conjunct2, THEN conjunct1]
          r4 [THEN conjunct2, THEN conjunct2, THEN conjunct2]
          s5 [THEN conjunct1] s5 [THEN conjunct2, THEN conjunct1]
          s5 [THEN conjunct2, THEN conjunct2, THEN conjunct1]
          s5 [THEN conjunct2, THEN conjunct2, THEN conjunct2, THEN conjunct1]
          s5 [THEN conjunct2, THEN conjunct2, THEN conjunct2, THEN conjunct2])
qed

theorem S3_scenario_witness:
  "((yale_minimum E_real [3,3] \<le> 4 \<and> 6 \<le> growth E_real 4) \<or> 6 \<le> yale_minimum E_real [3,3]) \<and>
   (\<exists>s0 s4 s5.
     nm_yale_storage_create E_real 0 [3,3] 2 4 = Inr s0 \<and>
     set_all E_real (init s0) [(0,0,1),(1,1,2),(2,2,3),(0,2,7)] = Inr s4 \<and>
     ija s4 4 = 2 \<and> a s4 4 = 7 \<and> map (ija s4) [0..<4] = [4,5,5,5] \<and> get_size s4 = 5 \<and>
     insert_search (ija s4) (ija s4 0) (ija s4 1 - 1) 1 = (4, False) \<and>
     set_yale E_real s4 0 1 5 = Inr (s5, CHR ''i'') \<and>
     map (ija s5) [4..<6] = [1,2] \<and> map (a s5) [4..<6] = [5,7] \<and>
     map (ija s5) [0..<4] = [4,6,6,6]) \<and>
   ((yale_minimum E_other [3,3] \<le> 4 \<and> 6 \<le> growth E_other 4) \<or> 6 \<le> yale_minimum E_other [3,3]) \<and>
   (\<exists>s0 s4 s5.
     nm_yale_storage_create E_other 0 [3,3] 2 4 = Inr s0 \<and>
     set_all E_other (init s0) [(0,0,1),(1,1,2),(2,2,3),(0,2,7)] = Inr s4 \<and>
     ija s4 4 = 2 \<and> a s4 4 = 7 \<and> map (ija s4) [0..<4] = [4,5,5,5] \<and> get_size s4 = 5 \<and>
     insert_search (ija s4) (ija s4 0) (ija s4 1 - 1) 1 = (4, False) \<and>
     set_yale E_other s4 0 1 5 = Inr (s5, CHR ''i'') \<and>
     map (ija s5) [4..<6] = [1,2] \<and> map (a s5) [4..<6] = [5,7] \<and>
     map (ija s5) [0..<4] = [4,6,6,6])"
proof -
  have h: "(yale_minimum E_real [3,3] \<le> 4 \<and> 6 \<le> growth E_real 4) \<or> 6 \<le> yale_minimum E_real [3,3]"
    by (simp add: E_real_def)
  have k: "(yale_minimum E_other [3,3] \<le> 4 \<and> 6 \<le> growth E_other 4) \<or> 6 \<le> yale_minimum E_other [3,3]"
    by (simp add: E_other_def growth_2_def)
  from S3_scenario [OF h, of 0] S3_scenario [OF k, of 0] h k show ?thesis
    by (intro conjI)
qed

section \<open>Creation\<close>





section \<open>The loops as functions of the position\<close>

lemma copy_loop_apply:
  "copy_loop dst src lo hi off k =
     (if lo + off \<le> k \<and> k < hi + off then src (k - off) else dst k)"
proof (induction hi)
  case 0
  then show ?case by (auto simp: copy_loop_def)
next
  case (Suc hi)
  show ?case
  proof (cases "lo \<le> hi")
    case True
    then have "copy_loop dst src lo (Suc hi) off =
        (copy_loop dst src lo hi off)(hi + off := src hi)"
      by (simp add: copy_loop_def)
    with Suc True show ?thesis by auto
  next
    case False
    then show ?thesis by (auto simp: copy_loop_def)
  qed
qed

lemma shift_loop_apply:
  assumes "cnt \<le> sz" and "1 \<le> n"
  shows "shift_loop buf sz n cnt k =
     (if sz - cnt + n \<le> k \<and> k < sz + n then buf (k - n) else buf k)"
  using assms(1)
proof (induction cnt arbitrary: k)
  case 0
  then show ?case by (auto simp: shift_loop_def)
next
  case (Suc cnt)
  then have le: "cnt \<le> sz" and lt: "cnt < sz" by simp_all
  have step: "shift_loop buf sz n (Suc cnt) =
      (shift_loop buf sz n cnt)(sz + n - 1 - cnt := shift_loop buf sz n cnt (sz - 1 - cnt))"
    by (simp add: shift_loop_def)
  have src: "shift_loop buf sz n cnt (sz - 1 - cnt) = buf (sz - 1 - cnt)"
    using Suc.IH [OF le, of "sz - 1 - cnt"] assms(2) lt by auto
  show ?case
    unfolding step src using Suc.IH [OF le, of k] assms(2) lt
    by auto
qed

lemma store_loop_apply:
  "store_loop buf pos xs n k = (if pos \<le> k \<and> k < pos + n then xs ! (k - pos) else buf k)"
proof (induction n)
  case 0
  then show ?case by (auto simp: store_loop_def)
next
  case (Suc n)
  have "store_loop buf pos xs (Suc n) = (store_loop buf pos xs n)(pos + n := xs ! n)"
    by (simp add: store_loop_def)
  with Suc show ?case by auto
qed

lemma increment_ia_after_apply:
  "ija (increment_ia_after s ija_size i n) k =
     (if i + 1 \<le> k \<and> k \<le> ija_size then ija s k + n else ija s k)"
proof -
  have "fold (\<lambda>k f. f(k := f k + n)) [lo..<hi] f0 k =
      (if lo \<le> k \<and> k < hi then f0 k + n else f0 k)" for lo hi and f0 :: "nat \<Rightarrow> nat"
  proof (induction hi)
    case 0
    then show ?case by simp
  next
    case (Suc hi)
    then show ?case by (cases "lo \<le> hi") auto
  qed
  then show ?thesis by (auto simp: increment_ia_after_def)
qed

lemma increment_ia_after_fields [simp]:
  "a (increment_ia_after s z i n) = a s"
  "shape (increment_ia_after s z i n) = shape s"
  "capacity (increment_ia_after s z i n) = capacity s"
  "ndnz (increment_ia_after s z i n) = ndnz s"
  "dtype (increment_ia_after s z i n) = dtype s"
  "dim (increment_ia_after s z i n) = dim s"
  by (simp_all add: increment_ia_after_def)

section \<open>Capacity\<close>

text \<open>
  Claim C8, as the code has it. An insertion of \<open>n\<close> entries fails with the
  capacity error (\<^verbatim>\<open>rb_eNoMemError\<close>) exactly when it passes the position check, does not
  fit the current capacity, the grown capacity is above \<open>rows * cols + 1\<close> and \<open>size + n\<close>
  is above \<open>rows * cols + 1\<close>; the descriptor is then the one that was passed in. So the
  error is never raised for \<open>size + n \<le> rows * cols + 1\<close>, and never when the entries
  fit the capacity that is already there.
\<close>

theorem capacity_exceeded:
  "vector_insert E s pos j val n struct_only = Inl (NoMemError, s') \<longleftrightarrow>
     s' = s \<and> shape s ! 0 \<le> pos \<and> capacity s < get_size s + n \<and>
     NM_YALE_MAX_SIZE s < growth E (capacity s) \<and> NM_YALE_MAX_SIZE s < get_size s + n"
  by (auto simp: vector_insert_def vector_insert_resize_def Let_def
        split: if_splits sum.splits prod.splits)

text \<open>The filled 3 by 2 matrix refuses a fourth entry off the diagonal.\<close>

theorem capacity_exceeded_witness:
  "vector_insert E_real tall_3x2 7 [1] [9] 1 False = Inl (NoMemError, tall_3x2)"
proof -
  have "shape tall_3x2 ! 0 \<le> 7 \<and> capacity tall_3x2 < get_size tall_3x2 + 1 \<and>
     NM_YALE_MAX_SIZE tall_3x2 < growth E_real (capacity tall_3x2) \<and>
     NM_YALE_MAX_SIZE tall_3x2 < get_size tall_3x2 + 1"
    by code_simp
  then show ?thesis
    using capacity_exceeded [of E_real tall_3x2 7 "[1]" "[9]" 1 False tall_3x2] by simp
qed


text \<open>
  On the column of two rows \<open>size + 1\<close> is above \<open>rows * cols + 1\<close>, and the insertion
  succeeds in place.
\<close>

theorem capacity_exceeded_counterexample:
  "NM_YALE_MAX_SIZE col_2x1 < get_size col_2x1 + 1 \<and>
   \<not> isl (vector_insert E_real col_2x1 3 [0] [9] 1 False)"
  by code_simp

section \<open>Resize\<close>

text \<open>
  Claim C3, the part the code does by design. For an insertion of \<open>n \<ge> 1\<close> entries at a
  position \<open>pos\<close> up to the size, a resize that returns leaves \<open>ija[0..pos)\<close> as it was,
  in both modes; it leaves \<open>a[0..pos)\<close> as it was when \<open>struct_only\<close> is false, and with
  \<open>struct_only\<close> the new value buffer is the allocator's memory, not written at all. The
  new capacity holds \<open>size + n\<close>. Nothing is said here about the entries from \<open>pos\<close> on.
\<close>

theorem resize_keeps_prefix:
  assumes "vector_insert_resize E s sz pos j n struct_only = Inr (s', t)"
    and "pos \<le> sz" and "1 \<le> n"
  shows "(\<forall>i<pos. ija s' i = ija s i) \<and>
         (\<not> struct_only \<longrightarrow> (\<forall>i<pos. a s' i = a s i)) \<and>
         (struct_only \<longrightarrow> a s' = fresh_a E) \<and>
         sz + n \<le> capacity s' \<and> t = CHR ''i''"
  using assms
  by (auto simp: vector_insert_resize_def Let_def copy_loop_apply split: if_splits)

theorem resize_keeps_prefix_witness:
  "(2::nat) \<le> 4 \<and> (1::nat) \<le> 1 \<and>
   (\<exists>s' t. vector_insert_resize E_real row_1x4 4 2 [1] 1 False = Inr (s', t) \<and>
     ija s' 0 = ija row_1x4 0 \<and> ija s' 1 = ija row_1x4 1 \<and>
     a s' 0 = a row_1x4 0 \<and> a s' 1 = a row_1x4 1)"
proof -
  obtain s' t where r: "vector_insert_resize E_real row_1x4 4 2 [1] 1 False = Inr (s', t)"
    by (cases "vector_insert_resize E_real row_1x4 4 2 [1] 1 False")
       (auto simp: vector_insert_resize_def Let_def split: if_splits, code_simp)
  have h: "(2::nat) \<le> 4" "(1::nat) \<le> 1" by simp_all
  have "(0::nat) < 2" "(1::nat) < 2" by simp_all
  with resize_keeps_prefix [OF r h] r h show ?thesis by blast
qed

text \<open>
  With \<open>struct_only\<close> the value at position 0 is not copied: the old buffer holds 4
  there, the new one what the allocator returned.
\<close>

theorem resize_struct_only_counterexample:
  "\<not> isl (vector_insert_resize E_real row_1x4 4 2 [1] 1 True) \<and>
   a (fst (projr (vector_insert_resize E_real row_1x4 4 2 [1] 1 True))) 0 \<noteq> a row_1x4 0"
  by code_simp

section \<open>Import from old Yale\<close>





section \<open>Searching a sorted row\<close>

lemma sorted_row_iff:
  "sorted_wrt (<) (map f [lo..<hi]) \<longleftrightarrow>
     (\<forall>k k'. lo \<le> k \<and> k < k' \<and> k' < hi \<longrightarrow> f k < (f k' :: nat))"
proof -
  have 1: "sorted_wrt (<) (map f [lo..<hi]) \<longleftrightarrow>
      (\<forall>i j. i < j \<longrightarrow> j < hi - lo \<longrightarrow> f (lo + i) < f (lo + j))"
    by (simp add: sorted_wrt_iff_nth_less)
  show ?thesis
    unfolding 1
  proof (intro iffI allI impI)
    fix k k'
    assume h: "\<forall>i j. i < j \<longrightarrow> j < hi - lo \<longrightarrow> f (lo + i) < f (lo + j)"
      and b: "lo \<le> k \<and> k < k' \<and> k' < hi"
    from b have "k - lo < k' - lo" "k' - lo < hi - lo" by auto
    with h have "f (lo + (k - lo)) < f (lo + (k' - lo))" by blast
    with b show "f k < f k'" by simp
  next
    fix i j
    assume h: "\<forall>k k'. lo \<le> k \<and> k < k' \<and> k' < hi \<longrightarrow> f k < f k'"
      and b: "i < j" "j < hi - lo"
    then have "lo \<le> lo + i \<and> lo + i < lo + j \<and> lo + j < hi" by auto
    with h show "f (lo + i) < f (lo + j)" by blast
  qed
qed

lemma insert_search_spec:
  assumes "\<forall>k k'. left \<le> k \<and> k < k' \<and> k' \<le> right \<longrightarrow> ij k < ij k'" and "1 \<le> left"
    and "insert_search ij left right key = (pos, found)" and "left \<le> right + 1"
  shows "left \<le> pos \<and> pos \<le> right + 1 \<and>
         (found \<longrightarrow> pos \<le> right \<and> ij pos = key) \<and>
         (\<not> found \<longrightarrow> (\<forall>k. left \<le> k \<and> k < pos \<longrightarrow> ij k < key) \<and>
                        (\<forall>k. pos \<le> k \<and> k \<le> right \<longrightarrow> key < ij k))"
  using assms
proof (induction ij left right key rule: insert_search.induct)
  case (1 ij left right key)
  let ?mid = "(left + right) div 2"
  show ?case
  proof (cases "left > right")
    case True
    with "1.prems"(3,4) show ?thesis by (auto simp: insert_search.simps [of ij left right key])
  next
    case nle: False
    then have mid: "left \<le> ?mid" "?mid \<le> right" by auto
    with "1.prems"(2) have mid0: "?mid \<noteq> 0" by auto
    show ?thesis
    proof (cases "ij ?mid = key")
      case True
      with nle "1.prems"(3) mid show ?thesis
        by (auto simp: insert_search.simps [of ij left right key])
    next
      case ne: False
      show ?thesis
      proof (cases "ij ?mid > key")
        case True
        with nle ne mid0 "1.prems"(3)
        have r: "insert_search ij left (?mid - 1) key = (pos, found)"
          by (simp add: insert_search.simps [of ij left right key])
        have s: "\<forall>k k'. left \<le> k \<and> k < k' \<and> k' \<le> ?mid - 1 \<longrightarrow> ij k < ij k'"
          using "1.prems"(1) mid by auto
        have b: "left \<le> ?mid - 1 + 1" using mid mid0 by auto
        from "1.IH"(1) [OF nle ne True mid0 s "1.prems"(2) r b]
        have ih: "left \<le> pos \<and> pos \<le> ?mid - 1 + 1 \<and>
         (found \<longrightarrow> pos \<le> ?mid - 1 \<and> ij pos = key) \<and>
         (\<not> found \<longrightarrow> (\<forall>k. left \<le> k \<and> k < pos \<longrightarrow> ij k < key) \<and>
                        (\<forall>k. pos \<le> k \<and> k \<le> ?mid - 1 \<longrightarrow> key < ij k))" .
        have up: "key < ij k" if "?mid \<le> k" "k \<le> right" for k
        proof (cases "k = ?mid")
          case True with \<open>ij ?mid > key\<close> show ?thesis by simp
        next
          case False
          with that "1.prems"(1) mid have "ij ?mid < ij k" by auto
          with \<open>ij ?mid > key\<close> show ?thesis by simp
        qed
        show ?thesis
        proof (intro conjI impI allI)
          show "left \<le> pos" using ih by simp
          show "pos \<le> right + 1" using ih mid mid0 by auto
          show "pos \<le> right" if found using ih mid mid0 that by auto
          show "ij pos = key" if found using ih that by simp
          show "ij k < key" if "\<not> found" "left \<le> k \<and> k < pos" for k using ih that by simp
          show "key < ij k" if "\<not> found" "pos \<le> k \<and> k \<le> right" for k
          proof (cases "k \<le> ?mid - 1")
            case True with ih that show ?thesis by simp
          next
            case False
            then have "?mid \<le> k" using mid0 by auto
            with up that show ?thesis by simp
          qed
        qed
      next
        case nlt: False
        with ne have lt: "ij ?mid < key" by simp
        from nle ne nlt "1.prems"(3)
        have r: "insert_search ij (?mid + 1) right key = (pos, found)"
          by (simp add: insert_search.simps [of ij left right key])
        have s: "\<forall>k k'. ?mid + 1 \<le> k \<and> k < k' \<and> k' \<le> right \<longrightarrow> ij k < ij k'"
          using "1.prems"(1) mid by auto
        have "1 \<le> ?mid + 1" by simp
        moreover have "?mid + 1 \<le> right + 1" using mid by simp
        ultimately have ih0: "1 \<le> ?mid + 1" "?mid + 1 \<le> right + 1" by simp_all
        from "1.IH"(2) [OF nle ne nlt s ih0(1) r ih0(2)]
        have ih: "?mid + 1 \<le> pos \<and> pos \<le> right + 1 \<and>
         (found \<longrightarrow> pos \<le> right \<and> ij pos = key) \<and>
         (\<not> found \<longrightarrow> (\<forall>k. ?mid + 1 \<le> k \<and> k < pos \<longrightarrow> ij k < key) \<and>
                        (\<forall>k. pos \<le> k \<and> k \<le> right \<longrightarrow> key < ij k))" .
        have low: "ij k < key" if "left \<le> k" "k \<le> ?mid" for k
        proof (cases "k = ?mid")
          case True with lt show ?thesis by simp
        next
          case False
          with that "1.prems"(1) mid have "ij k < ij ?mid" by auto
          with lt show ?thesis by simp
        qed
        show ?thesis
        proof (intro conjI impI allI)
          show "left \<le> pos" using ih mid by simp
          show "pos \<le> right + 1" using ih by simp
          show "pos \<le> right" if found using ih that by simp
          show "ij pos = key" if found using ih that by simp
          show "key < ij k" if "\<not> found" "pos \<le> k \<and> k \<le> right" for k using ih that by simp
          show "ij k < key" if "\<not> found" "left \<le> k \<and> k < pos" for k
          proof (cases "k \<le> ?mid")
            case True with low that show ?thesis by simp
          next
            case False with ih that show ?thesis by simp
          qed
        qed
      qed
    qed
  qed
qed



lemma binary_search_finds:
  assumes "\<forall>k k'. left \<le> k \<and> k < k' \<and> k' \<le> right \<longrightarrow> ij k < ij k'" and "1 \<le> left"
    and "left \<le> p" and "p \<le> right" and "ij p = key"
  shows "binary_search ij left right key = int p"
  using assms
proof (induction ij left right key rule: binary_search.induct)
  case (1 ij left right key)
  let ?mid = "(left + right) div 2"
  from "1.prems"(3,4) have nle: "\<not> left > right" by simp
  then have mid: "left \<le> ?mid" "?mid \<le> right" by auto
  with "1.prems"(2) have mid0: "?mid \<noteq> 0" by auto
  have lt: "ij ?mid < key" if "?mid < p"
    using "1.prems"(1,4,5) mid that by auto
  have gt: "key < ij ?mid" if "p < ?mid"
    using "1.prems"(1,3,5) mid that by auto
  show ?case
  proof (cases "ij ?mid = key")
    case True
    with lt gt have "p = ?mid" by (metis less_irrefl linorder_neqE_nat)
    with True nle show ?thesis by (simp add: binary_search.simps [of ij left right key])
  next
    case ne: False
    show ?thesis
    proof (cases "ij ?mid > key")
      case True
      with lt have "\<not> ?mid < p" by auto
      moreover from ne "1.prems"(5) have "p \<noteq> ?mid" by auto
      ultimately have p: "p \<le> ?mid - 1" by simp
      have s: "\<forall>k k'. left \<le> k \<and> k < k' \<and> k' \<le> ?mid - 1 \<longrightarrow> ij k < ij k'"
        using "1.prems"(1) mid by auto
      from "1.IH"(1) [OF nle ne True mid0 s "1.prems"(2,3) p "1.prems"(5)]
      show ?thesis using nle ne True mid0
        by (simp add: binary_search.simps [of ij left right key])
    next
      case nlt: False
      with gt have "\<not> p < ?mid" by auto
      moreover from ne "1.prems"(5) have "p \<noteq> ?mid" by auto
      ultimately have p: "?mid + 1 \<le> p" by simp
      have s: "\<forall>k k'. ?mid + 1 \<le> k \<and> k < k' \<and> k' \<le> right \<longrightarrow> ij k < ij k'"
        using "1.prems"(1) mid by auto
      have "1 \<le> ?mid + 1" by simp
      from "1.IH"(2) [OF nle ne nlt s this p "1.prems"(4,5)]
      show ?thesis using nle ne nlt
        by (simp add: binary_search.simps [of ij left right key])
    qed
  qed
qed

lemma I1_iff:
  "I1 s \<longleftrightarrow> (\<forall>i<shape s ! 0. \<forall>k k'. ija s i \<le> k \<and> k < k' \<and> k' < ija s (i + 1)
       \<longrightarrow> ija s k < ija s k')"
  by (auto simp: I1_def row_sorted_def list_all_iff sorted_row_iff)

lemma I2_iff:
  "I2 s \<longleftrightarrow> shape s ! 0 + 1 \<le> ija s 0 \<and> (\<forall>i<shape s ! 0. ija s i \<le> ija s (i + 1))"
  by (auto simp: I2_def list_all_iff)

lemma I2_mono:
  assumes "I2 s" and "i \<le> j" and "j \<le> shape s ! 0"
  shows "ija s i \<le> ija s j"
  using assms(2,3)
proof (induction j)
  case 0
  then show ?case by simp
next
  case (Suc j)
  show ?case
  proof (cases "i = Suc j")
    case True
    then show ?thesis by simp
  next
    case False
    with Suc.prems have "i \<le> j" "j < shape s ! 0" by simp_all
    with Suc.IH assms(1) show ?thesis
      by (force simp: I2_iff)
  qed
qed

lemma I2_row_bounds:
  assumes "I2 s" and "r < shape s ! 0"
  shows "shape s ! 0 + 1 \<le> ija s r" and "ija s r \<le> ija s (r + 1)"
    and "ija s (r + 1) \<le> get_size s"
proof -
  from assms(1) have "shape s ! 0 + 1 \<le> ija s 0" by (simp add: I2_iff)
  moreover have "ija s 0 \<le> ija s r" using I2_mono [OF assms(1), of 0 r] assms(2) by simp
  ultimately show "shape s ! 0 + 1 \<le> ija s r" by simp
  show "ija s r \<le> ija s (r + 1)" using assms by (simp add: I2_iff)
  show "ija s (r + 1) \<le> get_size s"
    unfolding get_size_def using I2_mono [OF assms(1), of "r + 1" "shape s ! 0"] assms(2) by simp
qed


lemma vector_insert_in_place:
  assumes "shape s ! 0 \<le> pos" and "pos \<le> get_size s" and "get_size s + 1 \<le> capacity s"
  shows "\<exists>s1. vector_insert E s pos [c] [v] 1 False = Inr (s1, CHR ''i'') \<and>
     shape s1 = shape s \<and>
     (\<forall>k. ija s1 k = (if k < pos then ija s k else if k = pos then c
                      else if k \<le> get_size s then ija s (k - 1) else ija s k)) \<and>
     (\<forall>k. a s1 k = (if k < pos then a s k else if k = pos then v
                    else if k \<le> get_size s then a s (k - 1) else a s k))"
proof -
  have cnt: "get_size s - pos \<le> get_size s" by simp
  have one: "1 \<le> Suc 0" by simp
  note sh = shift_loop_apply [OF cnt one]
  show ?thesis
    using assms
    by (auto simp: vector_insert_def Let_def sh store_loop_apply)
qed

text \<open>
  The insertion that resizes and does not raise: the part in front of \<open>pos\<close> is copied,
  the new column and value are at \<open>pos\<close>, and the columns behind \<open>pos\<close> are moved up by
  one as far as position \<open>size - pos\<close>, where the second loop of the resize stops.
\<close>

lemma vector_insert_resized:
  assumes "shape s ! 0 \<le> pos" and "capacity s < get_size s + 1"
    and "\<not> (NM_YALE_MAX_SIZE s < growth E (capacity s) \<and> NM_YALE_MAX_SIZE s < get_size s + 1)"
  shows "\<exists>s1. vector_insert E s pos [c] [v] 1 False = Inr (s1, CHR ''i'') \<and>
     shape s1 = shape s \<and> (\<forall>k<pos. ija s1 k = ija s k) \<and> ija s1 pos = c \<and> a s1 pos = v \<and>
     (\<forall>k. pos < k \<and> k \<le> get_size s - pos \<longrightarrow> ija s1 k = ija s (k - 1))"
  using assms
  by (auto simp: vector_insert_def vector_insert_resize_def Let_def copy_loop_apply
        store_loop_apply)

text \<open>
  After an insertion of column \<open>c\<close> at its place \<open>pos\<close> in row \<open>r\<close> that keeps the row (the
  part in front of \<open>pos\<close> and the row's columns behind it), \<open>ref\<close> finds \<open>c\<close>.
\<close>

lemma set_insert_path:
  assumes wf: "I1 s" "I2 s" and r: "r < shape s ! 0" and ne: "r \<noteq> c"
    and pos: "ija s r \<le> pos" "pos \<le> ija s (r + 1)"
    and low: "\<forall>k. ija s r \<le> k \<and> k < pos \<longrightarrow> ija s k < c"
    and up: "\<forall>k. pos \<le> k \<and> k < ija s (r + 1) \<longrightarrow> c < ija s k"
    and sh1: "shape s1 = shape s"
    and pre: "\<forall>k<pos. ija s1 k = ija s k"
    and atc: "ija s1 pos = c" and atv: "a s1 pos = v"
    and post: "\<forall>k. pos < k \<and> k \<le> ija s (r + 1) \<longrightarrow> ija s1 k = ija s (k - 1)"
    and s': "s' = (increment_ia_after s1 (shape s1 ! 0) r 1)\<lparr>ndnz := n'\<rparr>"
  shows "a s' (ref s' r c) = v"
proof -
  let ?R = "shape s ! 0"
  let ?lo = "ija s r" and ?hi = "ija s (r + 1)"
  note b = I2_row_bounds [OF wf(2) r]
  have ij': "ija s' k = (if r + 1 \<le> k \<and> k \<le> ?R then ija s1 k + 1 else ija s1 k)" for k
    by (simp add: s' increment_ia_after_apply sh1)
  have a': "a s' = a s1" by (simp add: s')
  have lo': "ija s' r = ?lo" using ij' [of r] pre r b pos by simp
  have hi': "ija s' (r + 1) = ?hi + 1" using ij' [of "r + 1"] pre r b pos by simp
  have tail: "ija s' k = ija s1 k" if "?R + 1 \<le> k" for k using ij' [of k] that by simp
  have old: "ija s k < ija s k'" if "?lo \<le> k" "k < k'" "k' < ?hi" for k k'
    using wf(1) r that by (auto simp: I1_iff)
  have new: "ija s' k = (if k < pos then ija s k else if k = pos then c else ija s (k - 1))"
    if "?lo \<le> k" "k \<le> ?hi" for k
  proof -
    from that b have "?R + 1 \<le> k" by simp
    then have "ija s' k = ija s1 k" by (rule tail)
    with that pre atc post show ?thesis by auto
  qed
  have at: "ija s' pos = c" using new [of pos] pos by simp
  have inc: "\<forall>k k'. ?lo \<le> k \<and> k < k' \<and> k' \<le> ?hi \<longrightarrow> ija s' k < ija s' k'"
  proof (intro allI impI)
    fix k k' assume h: "?lo \<le> k \<and> k < k' \<and> k' \<le> ?hi"
    then have nk: "ija s' k = (if k < pos then ija s k else if k = pos then c else ija s (k - 1))"
      and nk': "ija s' k' = (if k' < pos then ija s k' else if k' = pos then c else ija s (k' - 1))"
      by (simp_all add: new)
    consider "k' < pos" | "k < pos" "k' = pos" | "k < pos" "pos < k'" | "k = pos" | "pos < k"
      using h by linarith
    then show "ija s' k < ija s' k'"
    proof cases
      case 1
      with h old [of k k'] pos show ?thesis by (simp add: nk nk')
    next
      case 2
      with h low have "ija s k < c" by blast
      with 2 show ?thesis by (simp add: nk at)
    next
      case 3
      with h have "k < k' - 1" "k' - 1 < ?hi" by linarith+
      with h have "ija s k < ija s (k' - 1)" by (intro old) simp_all
      with 3 h show ?thesis by (simp add: nk nk')
    next
      case 4
      with h have "pos \<le> k' - 1 \<and> k' - 1 < ?hi" by linarith
      with up have "c < ija s (k' - 1)" by blast
      with 4 h show ?thesis by (simp add: nk' at)
    next
      case 5
      with h pos have "?lo \<le> k - 1" "k - 1 < k' - 1" "k' - 1 < ?hi" by linarith+
      then have "ija s (k - 1) < ija s (k' - 1)" by (rule old)
      with 5 h show ?thesis by (simp add: nk nk')
    qed
  qed
  have one: "1 \<le> ?lo" using b by simp
  from binary_search_finds [OF inc one pos(1) pos(2) at]
  have bs: "binary_search (ija s') ?lo ?hi c = int pos" .
  have "ref s' r c = pos"
    using ne lo' hi' b bs at by (simp add: ref_def Let_def)
  then show ?thesis using atv by (simp add: a')
qed


section \<open>Round trip of set and ref\<close>

text \<open>
  Claim C1, the part the code does. On a descriptor that satisfies I1 and I2, for a cell
  \<open>(r, c)\<close> of the matrix (row and column in bounds), \<open>set\<close> returns and \<open>ref\<close> on the new
  descriptor yields a handle whose value is \<open>v\<close>, in each of these cases:

    \<^item> the cell is on the diagonal;
    \<^item> its column is already stored in row \<open>r\<close> (replacement);
    \<^item> one more entry fits the capacity (insertion in place, into an empty or a
      non-empty row);
    \<^item> the insertion resizes, the resize does not raise the capacity error, and the second
      loop of the resize reaches the end of row \<open>r\<close>: either every column stored in row
      \<open>r\<close> is below \<open>c\<close>, so that nothing of the row lies behind the insertion position
      (this includes the insertion at position \<open>size\<close>), or the row holds a column above
      \<open>c\<close> at a position \<open>k\<close> with \<open>ija[r+1] + k \<le> size\<close>.

  Not covered: the insertion that raises the capacity error, and the resizing insertion
  that leaves a part of row \<open>r\<close> behind the insertion position unwritten, where the result
  of \<open>ref\<close> depends on the contents of the new memory.
\<close>

theorem set_then_ref:
  assumes wf: "I1 s" "I2 s" and r: "r < shape s ! 0" and cin: "c < shape s ! 1"
    and h: "r = c \<or> c \<in> set (map (ija s) [ija s r..<ija s (r + 1)]) \<or>
            get_size s + 1 \<le> capacity s \<or>
            (\<not> (NM_YALE_MAX_SIZE s < growth E (capacity s) \<and>
                NM_YALE_MAX_SIZE s < get_size s + 1) \<and>
             (list_all (\<lambda>k. ija s k < c) [ija s r..<ija s (r + 1)] \<or>
              list_ex (\<lambda>k. c < ija s k \<and> ija s (r + 1) + k \<le> get_size s)
                [ija s r..<ija s (r + 1)]))"
  shows "\<exists>s' t. set_yale E s r c v = Inr (s', t) \<and> a s' (ref s' r c) = v"
proof (cases "r = c")
  case True
  then show ?thesis by (simp add: set_yale_def ref_def)
next
  case ne: False
  let ?lo = "ija s r" and ?hi = "ija s (r + 1)"
  note b = I2_row_bounds [OF wf(2) r]
  have old: "ija s k < ija s k'" if "?lo \<le> k" "k < k'" "k' < ?hi" for k k'
    using wf(1) r that by (auto simp: I1_iff)
  have ins: ?thesis
    if pos: "?lo \<le> pos" "pos \<le> ?hi"
      and low: "\<forall>k. ?lo \<le> k \<and> k < pos \<longrightarrow> ija s k < c"
      and up: "\<forall>k. pos \<le> k \<and> k < ?hi \<longrightarrow> c < ija s k"
      and run: "\<And>s1 t. vector_insert E s pos [c] [v] 1 False = Inr (s1, t) \<Longrightarrow>
         set_yale E s r c v =
           Inr ((increment_ia_after s1 (shape s1 ! 0) r 1)
                  \<lparr>ndnz := ndnz (increment_ia_after s1 (shape s1 ! 0) r 1) + 1\<rparr>, t)"
    for pos
  proof -
    have "c \<notin> set (map (ija s) [?lo..<?hi])"
    proof
      assume "c \<in> set (map (ija s) [?lo..<?hi])"
      then obtain k where k: "?lo \<le> k" "k < ?hi" "ija s k = c" by auto
      show False
      proof (cases "k < pos")
        case True
        with low k have "ija s k < c" by blast
        with k show False by simp
      next
        case False
        with up k have "c < ija s k" by (metis not_less)
        with k show False by simp
      qed
    qed
    with h ne have alt: "get_size s + 1 \<le> capacity s \<or>
        (\<not> (NM_YALE_MAX_SIZE s < growth E (capacity s) \<and>
            NM_YALE_MAX_SIZE s < get_size s + 1) \<and>
         (list_all (\<lambda>k. ija s k < c) [?lo..<?hi] \<or>
          list_ex (\<lambda>k. c < ija s k \<and> ?hi + k \<le> get_size s) [?lo..<?hi]))"
      by simp
    have p1: "shape s ! 0 \<le> pos" "pos \<le> get_size s" using b pos by simp_all
    have "\<exists>s1. vector_insert E s pos [c] [v] 1 False = Inr (s1, CHR ''i'') \<and>
       shape s1 = shape s \<and> (\<forall>k<pos. ija s1 k = ija s k) \<and> ija s1 pos = c \<and> a s1 pos = v \<and>
       (\<forall>k. pos < k \<and> k \<le> ?hi \<longrightarrow> ija s1 k = ija s (k - 1))"
    proof (cases "get_size s + 1 \<le> capacity s")
      case True
      from vector_insert_in_place [OF p1 True, of E c v]
      obtain s1 where vi: "vector_insert E s pos [c] [v] 1 False = Inr (s1, CHR ''i'')"
        and f: "shape s1 = shape s"
          "\<forall>k. ija s1 k = (if k < pos then ija s k else if k = pos then c
                      else if k \<le> get_size s then ija s (k - 1) else ija s k)"
          "\<forall>k. a s1 k = (if k < pos then a s k else if k = pos then v
                    else if k \<le> get_size s then a s (k - 1) else a s k)"
        by blast
      have "\<forall>k. pos < k \<and> k \<le> ?hi \<longrightarrow> ija s1 k = ija s (k - 1)"
        using f(2) b by auto
      with vi f show ?thesis by auto
    next
      case False
      with alt have nr: "\<not> (NM_YALE_MAX_SIZE s < growth E (capacity s) \<and>
            NM_YALE_MAX_SIZE s < get_size s + 1)"
        and reach: "list_all (\<lambda>k. ija s k < c) [?lo..<?hi] \<or>
          list_ex (\<lambda>k. c < ija s k \<and> ?hi + k \<le> get_size s) [?lo..<?hi]" by simp_all
      have "pos = ?hi \<or> ?hi \<le> get_size s - pos"
      proof (cases "list_all (\<lambda>k. ija s k < c) [?lo..<?hi]")
        case less: True
        have "pos = ?hi"
        proof (rule ccontr)
          assume "pos \<noteq> ?hi"
          with pos have lt: "pos < ?hi" by simp
          with up have "c < ija s pos" by simp
          moreover from less pos lt have "ija s pos < c" by (simp add: list_all_iff)
          ultimately show False by simp
        qed
        then show ?thesis by simp
      next
        case False
        with reach obtain k0 where k0: "?lo \<le> k0" "k0 < ?hi" "c < ija s k0"
          "?hi + k0 \<le> get_size s"
          by (auto simp: list_ex_iff)
        have "pos \<le> k0"
        proof (rule ccontr)
          assume "\<not> pos \<le> k0"
          with low k0(1) have "ija s k0 < c" by simp
          with k0(3) show False by simp
        qed
        with k0(4) have "?hi + pos \<le> get_size s" by (rule_tac order_trans [of _ "?hi + k0"]) simp_all
        then have "?hi \<le> get_size s - pos" by arith
        then show ?thesis by (rule disjI2)
      qed
      then have v: "(\<forall>k. pos < k \<and> k \<le> get_size s - pos \<longrightarrow> ija s1 k = ija s (k - 1))
          \<Longrightarrow> (\<forall>k. pos < k \<and> k \<le> ?hi \<longrightarrow> ija s1 k = ija s (k - 1))"
        for s1 :: "'a yale_storage"
        by auto
      from False have cap: "capacity s < get_size s + 1" by simp
      from vector_insert_resized [OF p1(1) cap nr, of c v] v show ?thesis by blast
    qed
    then obtain s1 where vi: "vector_insert E s pos [c] [v] 1 False = Inr (s1, CHR ''i'')"
      and sh1: "shape s1 = shape s" and pre: "\<forall>k<pos. ija s1 k = ija s k"
      and atc: "ija s1 pos = c" and atv: "a s1 pos = v"
      and post: "\<forall>k. pos < k \<and> k \<le> ?hi \<longrightarrow> ija s1 k = ija s (k - 1)"
      by blast
    from set_insert_path [OF wf r ne pos low up sh1 pre atc atv post refl] run [OF vi]
    show ?thesis by simp
  qed
  show ?thesis
  proof (cases "?lo = ?hi")
    case True
    show ?thesis
    proof (rule ins [of ?lo])
      show "?lo \<le> ?lo" "?lo \<le> ?hi" using True by simp_all
      show "\<forall>k. ?lo \<le> k \<and> k < ?lo \<longrightarrow> ija s k < c" by simp
      show "\<forall>k. ?lo \<le> k \<and> k < ?hi \<longrightarrow> c < ija s k" using True by simp
      show "set_yale E s r c v =
           Inr ((increment_ia_after s1 (shape s1 ! 0) r 1)
                  \<lparr>ndnz := ndnz (increment_ia_after s1 (shape s1 ! 0) r 1) + 1\<rparr>, t)"
        if "vector_insert E s ?lo [c] [v] 1 False = Inr (s1, t)" for s1 t
        using that ne True by (simp add: set_yale_def Let_def)
    qed
  next
    case False
    with b have lt: "?lo < ?hi" by simp
    obtain pos found where srch: "insert_search (ija s) ?lo (?hi - 1) c = (pos, found)"
      by (cases "insert_search (ija s) ?lo (?hi - 1) c") auto
    have srt: "\<forall>k k'. ?lo \<le> k \<and> k < k' \<and> k' \<le> ?hi - 1 \<longrightarrow> ija s k < ija s k'"
      using old lt by auto
    have one: "1 \<le> ?lo" using b by simp
    have le: "?lo \<le> ?hi - 1 + 1" using lt by simp
    from insert_search_spec [OF srt one srch le] lt
    have sp: "?lo \<le> pos" "pos \<le> ?hi"
      "found \<Longrightarrow> pos \<le> ?hi - 1 \<and> ija s pos = c"
      "\<not> found \<Longrightarrow> (\<forall>k. ?lo \<le> k \<and> k < pos \<longrightarrow> ija s k < c) \<and>
                     (\<forall>k. pos \<le> k \<and> k \<le> ?hi - 1 \<longrightarrow> c < ija s k)"
      by auto
    show ?thesis
    proof (cases found)
      case True
      with sp have at: "pos \<le> ?hi - 1" "ija s pos = c" by simp_all
      let ?s' = "s\<lparr>ija := (ija s)(pos := c), a := (a s)(pos := v)\<rparr>"
      have st: "set_yale E s r c v = Inr (?s', CHR ''r'')"
        using ne False srch True by (simp add: set_yale_def)
      have same: "ija ?s' = ija s" using at(2) by (simp add: fun_upd_idem)
      from binary_search_finds [OF srt one sp(1) at]
      have "binary_search (ija s) ?lo (?hi - 1) c = int pos" .
      then have "ref ?s' r c = pos"
        using ne False at by (simp add: ref_def Let_def same del: fun_upd_apply)
      then have "a ?s' (ref ?s' r c) = v" by simp
      with st show ?thesis by blast
    next
      case nf: False
      show ?thesis
      proof (rule ins [of pos])
        show "?lo \<le> pos" "pos \<le> ?hi" using sp by simp_all
        show "\<forall>k. ?lo \<le> k \<and> k < pos \<longrightarrow> ija s k < c" using sp(4) [OF nf] by simp
        show "\<forall>k. pos \<le> k \<and> k < ?hi \<longrightarrow> c < ija s k" using sp(4) [OF nf] by auto
        show "set_yale E s r c v =
           Inr ((increment_ia_after s1 (shape s1 ! 0) r 1)
                  \<lparr>ndnz := ndnz (increment_ia_after s1 (shape s1 ! 0) r 1) + 1\<rparr>, t)"
          if "vector_insert E s pos [c] [v] 1 False = Inr (s1, t)" for s1 t
          using that ne False srch nf by (simp add: set_yale_def Let_def)
      qed
    qed
  qed
qed

text \<open>
  Three insertions in front of or behind a stored column. On the S2 matrix,
  \<open>set((0,1), 5)\<close> inserts in place, in front of the stored (0,2). On the full 2 by 3
  matrix, \<open>set((0,2), 9)\<close> resizes and inserts at the end of row 0. On the full 2 by 5
  matrix, \<open>set((0,1), 9)\<close> resizes and inserts in front of the stored (0,2), which the
  resize still moves.
\<close>

theorem set_then_ref_witness:
  "I1 s2_3x3 \<and> I2 s2_3x3 \<and> 0 < shape s2_3x3 ! 0 \<and> 1 < shape s2_3x3 ! 1 \<and>
   get_size s2_3x3 + 1 \<le> capacity s2_3x3 \<and>
   (\<exists>s' t. set_yale E_real s2_3x3 0 1 5 = Inr (s', t) \<and> a s' (ref s' 0 1) = 5) \<and>
   I1 eq_B \<and> I2 eq_B \<and> 0 < shape eq_B ! 0 \<and> 2 < shape eq_B ! 1 \<and>
   capacity eq_B < get_size eq_B + 1 \<and>
   growth E_real (capacity eq_B) \<le> NM_YALE_MAX_SIZE eq_B \<and>
   list_all (\<lambda>k. ija eq_B k < 2) [ija eq_B 0..<ija eq_B (0 + 1)] \<and>
   (\<exists>s' t. set_yale E_real eq_B 0 2 9 = Inr (s', t) \<and> a s' (ref s' 0 2) = 9) \<and>
   I1 wide_2x5 \<and> I2 wide_2x5 \<and> 0 < shape wide_2x5 ! 0 \<and> 1 < shape wide_2x5 ! 1 \<and>
   capacity wide_2x5 < get_size wide_2x5 + 1 \<and>
   growth E_real (capacity wide_2x5) \<le> NM_YALE_MAX_SIZE wide_2x5 \<and>
   list_ex (\<lambda>k. 1 < ija wide_2x5 k \<and> ija wide_2x5 (0 + 1) + k \<le> get_size wide_2x5)
     [ija wide_2x5 0..<ija wide_2x5 (0 + 1)] \<and>
   (\<exists>s' t. set_yale E_real wide_2x5 0 1 9 = Inr (s', t) \<and> a s' (ref s' 0 1) = 9)"
proof -
  have h: "I1 s2_3x3" "I2 s2_3x3" "0 < shape s2_3x3 ! 0" "1 < shape s2_3x3 ! 1"
    "get_size s2_3x3 + 1 \<le> capacity s2_3x3"
    by code_simp+
  have k: "I1 eq_B" "I2 eq_B" "0 < shape eq_B ! 0" "2 < shape eq_B ! 1"
    "capacity eq_B < get_size eq_B + 1"
    "growth E_real (capacity eq_B) \<le> NM_YALE_MAX_SIZE eq_B"
    "list_all (\<lambda>k. ija eq_B k < 2) [ija eq_B 0..<ija eq_B (0 + 1)]"
    by code_simp+
  have w: "I1 wide_2x5" "I2 wide_2x5" "0 < shape wide_2x5 ! 0" "1 < shape wide_2x5 ! 1"
    "capacity wide_2x5 < get_size wide_2x5 + 1"
    "growth E_real (capacity wide_2x5) \<le> NM_YALE_MAX_SIZE wide_2x5"
    "list_ex (\<lambda>k. 1 < ija wide_2x5 k \<and> ija wide_2x5 (0 + 1) + k \<le> get_size wide_2x5)
       [ija wide_2x5 0..<ija wide_2x5 (0 + 1)]"
    by code_simp+
  from k(6) have nk: "\<not> (NM_YALE_MAX_SIZE eq_B < growth E_real (capacity eq_B) \<and>
      NM_YALE_MAX_SIZE eq_B < get_size eq_B + 1)" by simp
  from w(6) have nw: "\<not> (NM_YALE_MAX_SIZE wide_2x5 < growth E_real (capacity wide_2x5) \<and>
      NM_YALE_MAX_SIZE wide_2x5 < get_size wide_2x5 + 1)" by simp
  have 1: "\<exists>s' t. set_yale E_real s2_3x3 0 1 5 = Inr (s', t) \<and> a s' (ref s' 0 1) = 5"
    using set_then_ref [OF h(1,2,3,4), of E_real 5] h(5) by blast
  have 2: "\<exists>s' t. set_yale E_real eq_B 0 2 9 = Inr (s', t) \<and> a s' (ref s' 0 2) = 9"
    using set_then_ref [OF k(1,2,3,4), of E_real 9] nk k(7) by blast
  have 3: "\<exists>s' t. set_yale E_real wide_2x5 0 1 9 = Inr (s', t) \<and> a s' (ref s' 0 1) = 9"
    using set_then_ref [OF w(1,2,3,4), of E_real 9] nw w(7) by blast
  from h k w 1 2 3 show ?thesis by (intro conjI)
qed

text \<open>
  The filled 3 by 2 matrix satisfies I1 and I2 and (2,1) is one of its cells, but
  \<open>set((2,1), 9)\<close> ends with the capacity error: its size is already \<open>rows * cols + 1\<close>.
\<close>

theorem set_then_ref_counterexample:
  "I1 tall_3x2 \<and> I2 tall_3x2 \<and> shape tall_3x2 = [3, 2] \<and>
   isl (set_yale E_real tall_3x2 2 1 9) \<and>
   fst (projl (set_yale E_real tall_3x2 2 1 9)) = NoMemError"
  by code_simp

section \<open>What a resize loses\<close>

text \<open>
  The second pair of loops in \<^verbatim>\<open>vector_insert_resize\<close> stops at
  \<open>current_size - pos + n - 1\<close>: no position from \<open>current_size - pos + 2 * n - 1\<close> on (and
  from \<open>pos\<close> on) is written, whatever the old buffer holds behind \<open>pos\<close>.
\<close>

lemma resize_leaves_tail_unwritten:
  assumes "vector_insert_resize E s sz pos j n struct_only = Inr (s', t)"
    and "pos \<le> k" and "sz - pos + n - 1 + n \<le> k"
  shows "ija s' k = fresh_ija E k" and "a s' k = fresh_a E k"
  using assms
  by (auto simp: vector_insert_resize_def Let_def copy_loop_apply split: if_splits)

text \<open>
  Claim C2 on the code. The single row of four columns is built from a freshly initialised
  descriptor by three \<open>set\<close> calls and satisfies I1 and I2; it is full. One more call,
  \<open>set((0,1), 5)\<close>, resizes. It returns, and row 0 of the result is \<open>[1, 0, 0]\<close>: the new
  column followed by unwritten memory in place of the columns 2 and 3. I1 does not hold.
\<close>

theorem set_resize_breaks_I1:
  "I1 row_1x4 \<and> I2 row_1x4 \<and> get_size row_1x4 = capacity row_1x4 \<and>
   map (ija row_1x4) [ija row_1x4 0..<ija row_1x4 1] = [2, 3] \<and>
   \<not> isl (set_yale E_real row_1x4 0 1 5) \<and>
   map (ija row_1x4_next) [ija row_1x4_next 0..<ija row_1x4_next 1] = [1, 0, 0] \<and>
   \<not> I1 row_1x4_next"
  by code_simp

text \<open>
  On the same input the round trip of claim C1 is lost as well: the search of \<open>ref\<close>
  starts in the unwritten part of the row and ends at the zero slot.
\<close>

lemma set_resize_loses_round_trip:
  "ref row_1x4_next 0 1 = 1 \<and> cell row_1x4_next 0 1 = 0 \<and> cell row_1x4_next 0 2 = 0 \<and>
   cell row_1x4 0 2 = 7"
  by code_simp

section \<open>Equality\<close>

declare ndrow_loop.simps [code]

text \<open>
  Claim C5 on the code. \<open>eq_B\<close> and \<open>eq_A\<close> satisfy I1, I2 and I4, have the same shape and
  the same cells, and \<open>eqeq\<close> returns false on them: after the left row has ended, the
  walk over the right row's last entry sets \<open>l_no_more\<close> instead of \<open>r_no_more\<close>, goes
  round once more and reads the first value of the next row.
\<close>

theorem eqeq_false_on_equal_matrices:
  "I1 eq_B \<and> I2 eq_B \<and> I4 eq_B \<and> I1 eq_A \<and> I2 eq_A \<and> I4 eq_A \<and>
   shape eq_B = shape eq_A \<and> dense eq_B = dense eq_A \<and>
   dense eq_B = [[1, 5, 0], [7, 2, 0]] \<and>
   eqeq eq_B eq_A = Some False"
  by code_simp

text \<open>
  Claim C6 on the code. \<open>eq_A\<close> differs from \<open>eq_B\<close> only in the stored zero at (0,2):
  row 0 of \<open>eq_A\<close> is \<open>[1, 2]\<close> with values \<open>[5, 0]\<close>, row 0 of \<open>eq_B\<close> is \<open>[1]\<close> with \<open>[5]\<close>,
  row 1 and the diagonal are the same. \<open>eqeq\<close> returns false with the stored zero on
  the left: when the right row has ended, \<open>ja\<close> is still its last column, the branch for
  the right side is entered and reads the first value of the next row.
\<close>

theorem eqeq_false_on_stored_zero:
  "map (ija eq_A) [ija eq_A 0..<ija eq_A 1] = [1, 2] \<and>
   map (a eq_A) [ija eq_A 0..<ija eq_A 1] = [5, 0] \<and>
   map (ija eq_B) [ija eq_B 0..<ija eq_B 1] = [1] \<and>
   map (a eq_B) [ija eq_B 0..<ija eq_B 1] = [5] \<and>
   map (ija eq_A) [ija eq_A 1..<ija eq_A 2] = [0] \<and>
   map (a eq_A) [ija eq_A 1..<ija eq_A 2] = [7] \<and>
   map (ija eq_B) [ija eq_B 1..<ija eq_B 2] = [0] \<and>
   map (a eq_B) [ija eq_B 1..<ija eq_B 2] = [7] \<and>
   map (a eq_A) [0..<2] = map (a eq_B) [0..<2] \<and>
   eqeq eq_A eq_B = Some False"
  by code_simp

text \<open>
  With the stored zero at (0,1), where it is the first entry of its row, \<open>eqeq\<close> returns
  true in both directions.
\<close>

lemma eqeq_scenario_S6:
  "map (ija s6_A) [ija s6_A 0..<ija s6_A 1] = [1, 2] \<and>
   map (a s6_A) [ija s6_A 0..<ija s6_A 1] = [0, 5] \<and>
   map (ija s6_B) [ija s6_B 0..<ija s6_B 1] = [2] \<and>
   eqeq s6_A s6_B = Some True \<and> eqeq s6_B s6_A = Some True"
  by code_simp

section \<open>Merge\<close>

lemma vector_insert_struct_only:
  assumes "vector_insert E s pos j val n True = Inr (s1, t)"
  shows "shape s1 = shape s \<and> dtype s1 = dtype s \<and> dim s1 = dim s \<and> ndnz s1 = ndnz s \<and>
         (a s1 = a s \<or> a s1 = fresh_a E)"
  using assms
  by (auto simp: vector_insert_def vector_insert_resize_def Let_def
        split: if_splits sum.splits prod.splits)

lemma merge_round_inv:
  assumes "merge_round E i (s, stale, ins_type, p, q) = Inr (s', stale', ins_type', p', q')"
    and "merge_inv E left s"
  shows "merge_inv E left s'"
proof -
  have step: "merge_inv E left ((increment_ia_after s1 (shape s1 ! 0) i (Suc 0))
        \<lparr>ndnz := Suc (ndnz s1)\<rparr>)"
    if "vector_insert E s pos j val (Suc 0) True = Inr (s1, t)" for pos j val s1 t
    using vector_insert_struct_only [OF that] assms(2)
    by (auto simp: merge_inv_def)
  from assms show ?thesis
    by (auto simp: merge_round_def Let_def step
          split: if_splits sum.splits prod.splits)
qed

lemma merge_rounds_inv:
  assumes "merge_rounds E i k st = Inr st'" and "merge_inv E left (fst st)"
  shows "merge_inv E left (fst st')"
  using assms
proof (induction k arbitrary: st)
  case 0
  then show ?case by simp
next
  case (Suc k)
  from Suc.prems(1) obtain st1 where
    1: "merge_round E i st = Inr st1" and 2: "merge_rounds E i k st1 = Inr st'"
    by (auto split: sum.splits)
  obtain s stale ins_type p q where st: "st = (s, stale, ins_type, p, q)"
    by (cases st) auto
  obtain s1 stale1 ins_type1 p1 q1 where st1: "st1 = (s1, stale1, ins_type1, p1, q1)"
    by (cases st1) auto
  from merge_round_inv [OF 1 [unfolded st st1]] Suc.prems(2) have "merge_inv E left (fst st1)"
    by (simp add: st st1)
  from Suc.IH [OF 2 this] show ?case .
qed

lemma merge_rows_inv:
  assumes "merge_rows E rija rows st = Inr st'" and "merge_inv E left (fst st)"
  shows "merge_inv E left (fst st')"
  using assms
proof (induction rows arbitrary: st)
  case Nil
  then show ?case by simp
next
  case (Cons i rows)
  obtain s stale ins_type where st: "st = (s, stale, ins_type)" by (cases st) auto
  let ?sija = "case stale of None \<Rightarrow> ija s | Some f \<Rightarrow> f"
  from Cons.prems(1) obtain s1 stale1 ins_type1 p1 q1 where
    1: "merge_rounds E i (rija (i + 1) - rija i) (s, stale, ins_type, ?sija i, ?sija (i + 1))
          = Inr (s1, stale1, ins_type1, p1, q1)"
    and 2: "merge_rows E rija rows (s1, stale1, ins_type1) = Inr st'"
    by (auto simp: st Let_def split: sum.splits prod.splits)
  from merge_rounds_inv [OF 1] Cons.prems(2) have "merge_inv E left s1" by (simp add: st)
  with Cons.IH [OF 2] show ?case by simp
qed

text \<open>
  Claim C7, the part the code does by design. When the merge returns, the result has the
  shape and the type tag of the left operand and an \<open>ndnz\<close> not below the left operand's;
  every slot of its value buffer other than \<open>a[rows]\<close>, so every diagonal slot, holds what
  the allocator returned: no value of the left operand is copied but the zero slot. When
  the right operand is the left operand itself, the result carries the left operand's
  row pointers and column indices, its \<open>ndnz\<close> and its zero slot. Which columns a merge
  with another descriptor adds is not stated here.
\<close>

theorem create_merged_structure:
  assumes "create_merged E ins0 left right = Inr S"
  shows "shape S = shape left \<and> dtype S = dtype left \<and> ndnz left \<le> ndnz S \<and>
         (\<forall>k. k \<noteq> shape left ! 0 \<longrightarrow> a S k = fresh_a E k) \<and>
         (right = None \<longrightarrow>
            ndnz S = ndnz left \<and> (\<forall>k<get_size left. ija S k = ija left k) \<and>
            a S (shape left ! 0) = a left (shape left ! 0))"
proof -
  let ?s0 = "copy_alloc_struct E left (dtype left)
     (max (capacity left) (case right of None \<Rightarrow> capacity left | Some r \<Rightarrow> capacity r))
     (get_size left)"
  let ?s = "?s0\<lparr>a := (a ?s0)(shape ?s0 ! 0 := a left (shape left ! 0))\<rparr>"
  have inv0: "merge_inv E left ?s"
    by (simp add: merge_inv_def copy_alloc_struct_def)
  show ?thesis
  proof (cases right)
    case None
    with assms have "S = ?s" by (simp add: create_merged_def Let_def)
    then show ?thesis
      using None by (simp add: copy_alloc_struct_def copy_loop_apply)
  next
    case (Some r)
    with assms obtain stale ins_type where
      "merge_rows E (ija r) [0..<shape ?s ! 0] (?s, None, ins0) = Inr (S, stale, ins_type)"
      by (auto simp: create_merged_def Let_def split: sum.splits prod.splits)
    from merge_rows_inv [OF this] inv0 have "merge_inv E left S" by simp
    with Some show ?thesis by (simp add: merge_inv_def)
  qed
qed

text \<open>Merging the S2 matrix with itself.\<close>

theorem create_merged_structure_witness:
  "\<not> isl (create_merged E_real (CHR ''x'') s2_3x3 None) \<and>
   shape (projr (create_merged E_real (CHR ''x'') s2_3x3 None)) = shape s2_3x3 \<and>
   ndnz (projr (create_merged E_real (CHR ''x'') s2_3x3 None)) = ndnz s2_3x3 \<and>
   a (projr (create_merged E_real (CHR ''x'') s2_3x3 None)) 0 = fresh_a E_real 0 \<and>
   ija (projr (create_merged E_real (CHR ''x'') s2_3x3 None)) 4 = ija s2_3x3 4"
proof -
  obtain S where r: "create_merged E_real (CHR ''x'') s2_3x3 None = Inr S"
    by (simp add: create_merged_def Let_def)
  have h: "(0::nat) \<noteq> shape s2_3x3 ! 0" "4 < get_size s2_3x3" by code_simp+
  from create_merged_structure [OF r] h show ?thesis
    by (simp add: r)
qed

text \<open>
  The diagonal of the S2 matrix is 1, 2, 3; the result of merging it with the empty
  3 by 3 matrix has, at slot 0, the allocator's zero.
\<close>

theorem create_merged_diagonal_counterexample:
  "\<not> isl (create_merged E_real (CHR ''x'') s2_3x3 (Some empty_3x3)) \<and>
   a s2_3x3 0 = 1 \<and>
   a (projr (create_merged E_real (CHR ''x'') s2_3x3 (Some empty_3x3))) 0 = 0"
  by code_simp

text \<open>
  The column that a round inserts is read from the result's own index buffer
  (\<^verbatim>\<open>sija[ija]\<close>), not from the right operand. Merging the diagonal-only matrix with
  \<open>eq_B\<close>, whose rows are \<open>[1]\<close> and \<open>[0]\<close>, gives the rows \<open>[0]\<close> and \<open>[0]\<close>.
\<close>

lemma create_merged_wrong_column:
  "\<not> isl (create_merged E_real (CHR ''x'') diag_2x3 (Some eq_B)) \<and>
   map (ija (projr (create_merged E_real (CHR ''x'') diag_2x3 (Some eq_B)))) [0..<5]
     = [3, 4, 5, 0, 0] \<and>
   map (ija eq_B) [0..<5] = [3, 4, 5, 1, 0] \<and> map (ija diag_2x3) [0..<3] = [3, 3, 3]"
  by code_simp

end
